theory Spec2Isabelle
  imports Complex_Main
begin

section \<open>Tensors\<close>

text \<open>
  The Linear UCB policy computes on rank-1 and rank-2 tensors of floating-point numbers.
  The embedding idealises the element type to \<^typ>\<open>real\<close>: a vector is a list of
  reals, a matrix the list of its rows. The tensor operations below are the ones the
  source calls (\<^verbatim>\<open>tf.matmul\<close>, \<^verbatim>\<open>tf.linalg.matrix_transpose\<close>,
  \<^verbatim>\<open>tf.eye\<close>, \<^verbatim>\<open>tf.einsum\<close>, \<^verbatim>\<open>tf.linalg.tensor_diag_part\<close>,
  \<^verbatim>\<open>tf.reshape\<close>, \<^verbatim>\<open>tf.stack\<close>, \<^verbatim>\<open>tf.squeeze\<close>, \<^verbatim>\<open>tf.argmax\<close>),
  written for operands of compatible shapes; on incompatible shapes the library raises,
  and the theorems below state the shapes they need as hypotheses.
\<close>

type_synonym vec = "real list"
type_synonym mat = "real list list"

definition is_mat :: "nat \<Rightarrow> nat \<Rightarrow> mat \<Rightarrow> bool" where
  "is_mat r c M = (length M = r \<and> list_all (\<lambda>row. length row = c) M)"

definition ncols :: "mat \<Rightarrow> nat" where
  "ncols M = (case M of [] \<Rightarrow> 0 | r # _ \<Rightarrow> length r)"

definition col :: "mat \<Rightarrow> nat \<Rightarrow> vec" where
  "col M j = map (\<lambda>r. r ! j) M"

definition dot :: "vec \<Rightarrow> vec \<Rightarrow> real" where
  "dot u v = sum_list (map2 (*) u v)"

definition matrix_transpose :: "mat \<Rightarrow> mat" where
  "matrix_transpose M = map (col M) [0..<ncols M]"

definition matmul :: "mat \<Rightarrow> mat \<Rightarrow> mat" where
  "matmul A B = map (\<lambda>r. map (\<lambda>j. dot r (col B j)) [0..<ncols B]) A"

definition eye :: "nat \<Rightarrow> mat" where
  "eye n = map (\<lambda>i. map (\<lambda>j. if i = j then 1 else 0) [0..<n]) [0..<n]"

definition zeros :: "nat \<Rightarrow> vec" where
  "zeros n = replicate n 0"

definition smult :: "real \<Rightarrow> mat \<Rightarrow> mat" where
  "smult c M = map (map ((*) c)) M"

definition madd :: "mat \<Rightarrow> mat \<Rightarrow> mat" where
  "madd A B = map2 (map2 (+)) A B"

definition vsmult :: "real \<Rightarrow> vec \<Rightarrow> vec" where
  "vsmult c v = map ((*) c) v"

definition vadd :: "vec \<Rightarrow> vec \<Rightarrow> vec" where
  "vadd u v = map2 (+) u v"

text \<open>\<^verbatim>\<open>tf.einsum('j,jk->jk', v, M)\<close>: row \<open>j\<close> of \<open>M\<close> scaled by \<open>v[j]\<close>.\<close>

definition einsum_j_jk_jk :: "vec \<Rightarrow> mat \<Rightarrow> mat" where
  "einsum_j_jk_jk v M = map2 (\<lambda>l row. map ((*) l) row) v M"

text \<open>\<^verbatim>\<open>tf.einsum('j,jk->k', v, M)\<close>: entry \<open>k\<close> is \<open>\<Sum>j. v[j] * M[j][k]\<close>.\<close>

definition einsum_j_jk_k :: "vec \<Rightarrow> mat \<Rightarrow> vec" where
  "einsum_j_jk_k v M = map (\<lambda>k. dot v (col M k)) [0..<ncols M]"

definition tensor_diag_part :: "mat \<Rightarrow> vec" where
  "tensor_diag_part M = map (\<lambda>i. M ! i ! i) [0..<length M]"

text \<open>\<^verbatim>\<open>tf.reshape(v, [-1, 1])\<close>: a vector of length \<open>B\<close> as a \<open>B \<times> 1\<close> matrix.\<close>

definition reshape_column :: "vec \<Rightarrow> mat" where
  "reshape_column v = map (\<lambda>x. [x]) v"

definition msqrt :: "mat \<Rightarrow> mat" where
  "msqrt M = map (map sqrt) M"

text \<open>
  \<^verbatim>\<open>tf.squeeze(tf.stack(p_values, axis=-1), axis=[1])\<close>: the \<open>K\<close> matrices of shape
  \<open>B \<times> 1\<close> become one \<open>B \<times> K\<close> matrix whose row \<open>b\<close> lists the scores of context \<open>b\<close>,
  arm by arm.
\<close>

definition squeeze_stack :: "mat list \<Rightarrow> mat" where
  "squeeze_stack ps = map (\<lambda>b. map (\<lambda>pv. pv ! b ! 0) ps) [0..<length (ps ! 0)]"

text \<open>
  \<^verbatim>\<open>tf.argmax\<close> along the last axis, for one row: the index of the largest entry, the
  smallest such index when the maximum is attained more than once (the behaviour
  \<^verbatim>\<open>tf.math.argmax\<close> documents).
\<close>

fun argmax :: "real list \<Rightarrow> nat" where
  "argmax [] = 0"
| "argmax [x] = 0"
| "argmax (x # y # ys) = (let i = argmax (y # ys) in if x < (y # ys) ! i then Suc i else 0)"

section \<open>The Linear UCB policy\<close>

datatype error =
    ValueError string
  | IndexError
  | AttributeError
  | DimensionMismatch
  | DtypeMismatch

datatype dtype = int32 | int64 | float32 | float64

record bounded_tensor_spec =
  spec_shape :: "nat list"
  spec_dtype :: dtype
  minimum :: int
  maximum :: int

text \<open>What a caller may pass where the constructor expects a list or tuple.\<close>

datatype 'a pyarg = Seq "'a list" | NotSeq

text \<open>An action specification is one bounded spec, or a nest of them.\<close>

datatype action_spec_arg = Spec bounded_tensor_spec | NestedSpec "bounded_tensor_spec list"

text \<open>
  The per-arm statistics (\<^verbatim>\<open>self._cov_matrix\<close>, \<^verbatim>\<open>self._data_vector\<close>,
  \<^verbatim>\<open>self._num_samples\<close>, \<^verbatim>\<open>self._eig_vals\<close>, \<^verbatim>\<open>self._eig_matrix\<close>): one list
  entry per arm. The policy record extends the store with its configuration.
\<close>

record statistics_store =
  cov_matrix :: "mat list"
  data_vector :: "vec list"
  num_samples :: "real list"
  eig_vals :: "vec list"
  eig_matrix :: "mat list"

record LinearUCBPolicy = statistics_store +
  alpha :: real
  use_eigendecomp :: bool
  tikhonov_weight :: real
  num_actions :: int
  observation_dim :: nat
  action_spec :: bounded_tensor_spec

text \<open>
  \<^verbatim>\<open>LinearUCBPolicy.__init__\<close>. The checks run in the order of the source; the first one
  that fails raises. A \<open>ValueError\<close> carries the fixed part of its message, without the
  formatted numbers. \<open>time_step_spec\<close> is \<open>None\<close> (the default) or the shape of the
  observation spec; its first dimension is read with \<^verbatim>\<open>shape[0]\<close>, as are the first
  dimensions of \<^verbatim>\<open>cov_matrix[0]\<close> and \<^verbatim>\<open>data_vector[0]\<close>, and reading the first entry
  of an empty list or shape raises \<open>IndexError\<close>. The base-class constructor called
  last is not among the sources and is taken to return.
\<close>

definition init ::
  "action_spec_arg \<Rightarrow> mat pyarg \<Rightarrow> vec pyarg \<Rightarrow> real pyarg \<Rightarrow> nat list option \<Rightarrow> real \<Rightarrow>
   vec pyarg \<Rightarrow> mat pyarg \<Rightarrow> real \<Rightarrow> error + LinearUCBPolicy" where
  "init action_spec_a cov_matrix_a data_vector_a num_samples_a time_step_spec alpha_a
        eig_vals_a eig_matrix_a tikhonov_weight_a =
   (case cov_matrix_a of
      NotSeq \<Rightarrow> Inl (ValueError ''cov_matrix must be a list of matrices (Tensors).'')
    | Seq cov \<Rightarrow>
   (case data_vector_a of
      NotSeq \<Rightarrow> Inl (ValueError ''data_vector must be a list of vectors (Tensors).'')
    | Seq dat \<Rightarrow>
   (case num_samples_a of
      NotSeq \<Rightarrow> Inl (ValueError ''num_samples must be a list of vectors (Tensors).'')
    | Seq num \<Rightarrow>
   (case eig_vals_a of
      NotSeq \<Rightarrow> Inl (ValueError ''eig_vals must be a list of vectors (Tensors).'')
    | Seq evals \<Rightarrow>
   (case eig_matrix_a of
      NotSeq \<Rightarrow> Inl (ValueError ''eig_matrix must be a list of vectors (Tensors).'')
    | Seq emat \<Rightarrow>
      if length cov \<noteq> length dat then
        Inl (ValueError ''The size of list cov_matrix must match the size of list data_vector.'')
      else if length num \<noteq> length cov then
        Inl (ValueError ''The size of num_samples must match the size of list cov_matrix.'')
      else
   (case action_spec_a of
      NestedSpec _ \<Rightarrow> Inl (ValueError ''Nested action_spec is not supported.'')
    | Spec aspec \<Rightarrow>
      if maximum aspec + 1 \<noteq> int (length cov) then
        Inl (ValueError ''The number of elements in cov_matrix must match the number of actions derived from action_spec.'')
      else
   (case time_step_spec of
      None \<Rightarrow> Inl AttributeError
    | Some [] \<Rightarrow> Inl IndexError
    | Some (obs_dim # _) \<Rightarrow>
   (case cov of
      [] \<Rightarrow> Inl IndexError
    | cov0 # _ \<Rightarrow>
      if obs_dim \<noteq> length cov0 then
        Inl (ValueError ''The dimension of matrix cov_matrix must match observation dimension.'')
      else
   (case dat of
      [] \<Rightarrow> Inl IndexError
    | dat0 # _ \<Rightarrow>
      if obs_dim \<noteq> length dat0 then
        Inl (ValueError ''The dimension of vector data_vector must match observation dimension.'')
      else
        Inr \<lparr>cov_matrix = cov, data_vector = dat, num_samples = num,
             eig_vals = evals, eig_matrix = emat,
             alpha = alpha_a, use_eigendecomp = (emat \<noteq> []),
             tikhonov_weight = tikhonov_weight_a,
             num_actions = maximum aspec + 1, observation_dim = obs_dim,
             action_spec = aspec\<rparr>)))))))))"

record time_step =
  step_type :: "int list"
  reward :: "real list"
  discount :: "real list"
  observation :: mat

record 'ps policy_step =
  action :: "int list"
  state :: 'ps

text \<open>
  The solve of the loop body, for arm \<open>k\<close>: the \<open>d \<times> B\<close> matrix \<^verbatim>\<open>a_inv_x\<close>. With the
  cached eigendecomposition it is \<open>V diag(1 / (\<lambda> + tikhonov_weight)) V\<^sup>T observation\<^sup>T\<close>;
  otherwise \<^verbatim>\<open>linalg.conjugate_gradient_solve\<close> is called on
  \<open>cov_matrix[k] + tikhonov_weight * I\<close> and \<open>observation\<^sup>T\<close>. That solver is not among the
  sources; it is the parameter \<open>cg\<close>. Indexing a list past its end raises. Where
  \<open>\<lambda> + tikhonov_weight\<close> is zero the source divides by zero; the quotient here is then
  \<open>0\<close>, and the theorems that depend on it assume the sum is not zero.
\<close>

definition solve_arm ::
  "(mat \<Rightarrow> mat \<Rightarrow> mat) \<Rightarrow> 'a LinearUCBPolicy_scheme \<Rightarrow> mat \<Rightarrow> nat \<Rightarrow> error + mat" where
  "solve_arm cg p obs k =
    (if use_eigendecomp p then
       (if k < length (eig_matrix p) \<and> k < length (eig_vals p) then
          (let q_t_b = matmul (matrix_transpose (eig_matrix p ! k)) (matrix_transpose obs);
               lambda_inv = map (\<lambda>l. 1 / (l + tikhonov_weight p)) (eig_vals p ! k)
           in Inr (matmul (eig_matrix p ! k) (einsum_j_jk_jk lambda_inv q_t_b)))
        else Inl IndexError)
     else
       (if k < length (cov_matrix p) then
          Inr (cg (madd (cov_matrix p ! k) (smult (tikhonov_weight p) (eye (observation_dim p))))
                  (matrix_transpose obs))
        else Inl IndexError))"

text \<open>The rest of the loop body: the \<open>B \<times> 1\<close> matrix appended to \<^verbatim>\<open>p_values\<close>.\<close>

definition p_value ::
  "(mat \<Rightarrow> mat \<Rightarrow> mat) \<Rightarrow> 'a LinearUCBPolicy_scheme \<Rightarrow> mat \<Rightarrow> nat \<Rightarrow> error + mat" where
  "p_value cg p obs k =
    (case solve_arm cg p obs k of
       Inl e \<Rightarrow> Inl e
     | Inr a_inv_x \<Rightarrow>
         if k < length (data_vector p) then
           (let est_mean_reward = einsum_j_jk_k (data_vector p ! k) a_inv_x;
                ci = reshape_column (tensor_diag_part (matmul obs a_inv_x))
            in Inr (madd (reshape_column est_mean_reward) (smult (alpha p) (msqrt ci))))
         else Inl IndexError)"

text \<open>The loop \<^verbatim>\<open>for k in range(self._num_actions)\<close>; an exception ends it.\<close>

fun p_values_loop ::
  "(mat \<Rightarrow> mat \<Rightarrow> mat) \<Rightarrow> 'a LinearUCBPolicy_scheme \<Rightarrow> mat \<Rightarrow> nat list \<Rightarrow> error + mat list" where
  "p_values_loop cg p obs [] = Inr []"
| "p_values_loop cg p obs (k # ks) =
    (case p_value cg p obs k of
       Inl e \<Rightarrow> Inl e
     | Inr v \<Rightarrow>
        (case p_values_loop cg p obs ks of
           Inl e \<Rightarrow> Inl e
         | Inr vs \<Rightarrow> Inr (v # vs)))"

text \<open>
  \<^verbatim>\<open>LinearUCBPolicy._distribution\<close>. The result pairs what the call returns (the location
  of the deterministic distribution and the policy state, or the exception raised) with
  the policy object as the call leaves it. The observation must have
  \<^verbatim>\<open>observation_dim\<close> columns; the cast to the dtype of \<^verbatim>\<open>data_vector[0]\<close> changes no
  real number but reads the first data vector; \<^verbatim>\<open>tf.stack\<close> of no tensor raises.
\<close>

definition distribution ::
  "(mat \<Rightarrow> mat \<Rightarrow> mat) \<Rightarrow> 'a LinearUCBPolicy_scheme \<Rightarrow> time_step \<Rightarrow> 'ps \<Rightarrow>
   (error + 'ps policy_step) \<times> 'a LinearUCBPolicy_scheme" where
  "distribution cg p ts policy_state =
    (if \<not> list_all (\<lambda>row. length row = observation_dim p) (observation ts) then
       (Inl (ValueError ''Observation shape is not as expected.''), p)
     else if data_vector p = [] then (Inl IndexError, p)
     else
       (case p_values_loop cg p (observation ts) [0..<nat (num_actions p)] of
          Inl e \<Rightarrow> (Inl e, p)
        | Inr [] \<Rightarrow> (Inl (ValueError ''stack needs at least one tensor.''), p)
        | Inr (pv # pvs) \<Rightarrow>
            (Inr \<lparr>action = map (\<lambda>row. int (argmax row)) (squeeze_stack (pv # pvs)),
                  state = policy_state\<rparr>, p)))"

text \<open>
  The score of Section 4.3 in the words of the specification, to compare with what the
  loop body computes: for arm \<open>k\<close>, a context and the solve result \<open>x\<close> for it, the
  point estimate \<open>data_vector[k]\<^sup>T x\<close> plus \<open>alpha\<close> times the confidence width
  \<open>sqrt(context\<^sup>T x)\<close>.
\<close>

definition spec_score :: "'a LinearUCBPolicy_scheme \<Rightarrow> nat \<Rightarrow> vec \<Rightarrow> vec \<Rightarrow> real" where
  "spec_score p k context x = dot (data_vector p ! k) x + alpha p * sqrt (dot context x)"

text \<open>
  What a cached eigendecomposition of a covariance matrix is (the result of
  \<^verbatim>\<open>tf.linalg.eigh\<close> on a symmetric matrix): \<open>V\<close> is orthogonal, its columns are the
  eigenvectors, and \<open>A = V diag(lam) V\<^sup>T\<close>.
\<close>

definition is_eigendecomposition :: "nat \<Rightarrow> mat \<Rightarrow> vec \<Rightarrow> mat \<Rightarrow> bool" where
  "is_eigendecomposition d A lam V =
     (is_mat d d A \<and> is_mat d d V \<and> length lam = d \<and>
      matmul (matrix_transpose V) V = eye d \<and>
      matmul V (matrix_transpose V) = eye d \<and>
      A = matmul V (einsum_j_jk_jk lam (matrix_transpose V)))"

text \<open>
  The statistics of a policy are consistent when, for every arm, the cached pair is an
  eigendecomposition of the arm's covariance matrix and no regularised eigenvalue
  \<open>\<lambda> + tikhonov_weight\<close> is zero.
\<close>

definition eig_cache_valid :: "'a LinearUCBPolicy_scheme \<Rightarrow> bool" where
  "eig_cache_valid p =
     list_all (\<lambda>k. k < length (cov_matrix p) \<and> k < length (eig_vals p) \<and>
                 k < length (eig_matrix p) \<and>
                 is_eigendecomposition (observation_dim p) (cov_matrix p ! k)
                   (eig_vals p ! k) (eig_matrix p ! k) \<and>
                 list_all (\<lambda>l. l + tikhonov_weight p \<noteq> 0) (eig_vals p ! k))
              [0..<nat (num_actions p)]"

text \<open>The solver returns a \<open>d \<times> B\<close> solution of \<open>A X = C\<close>.\<close>

definition exact_solve :: "(mat \<Rightarrow> mat \<Rightarrow> mat) \<Rightarrow> nat \<Rightarrow> nat \<Rightarrow> mat \<Rightarrow> mat \<Rightarrow> bool" where
  "exact_solve cg d B A C = (is_mat d B (cg A C) \<and> matmul A (cg A C) = C)"

text \<open>
  The policy over the same covariance matrices and data vectors that the constructor
  builds when no eigendecomposition is passed (\<^verbatim>\<open>eig_vals=()\<close>, \<^verbatim>\<open>eig_matrix=()\<close>): it
  selects through the direct solve.
\<close>

definition direct_solve_policy :: "'a LinearUCBPolicy_scheme \<Rightarrow> 'a LinearUCBPolicy_scheme" where
  "direct_solve_policy p = p\<lparr>eig_vals := [], eig_matrix := [], use_eigendecomp := False\<rparr>"

text \<open>
  The solves of a policy work context by context at context \<open>b\<close> of a batch when, for
  every arm, the solve for the batch of that one context returns the column the solve
  for the whole batch returns for it.
\<close>

definition solves_contextwise ::
  "(mat \<Rightarrow> mat \<Rightarrow> mat) \<Rightarrow> 'a LinearUCBPolicy_scheme \<Rightarrow> mat \<Rightarrow> nat \<Rightarrow> bool" where
  "solves_contextwise cg p obs b =
     list_all (\<lambda>k. case (solve_arm cg p obs k, solve_arm cg p [obs ! b] k) of
                     (Inr X, Inr X1) \<Rightarrow> ncols X1 = 1 \<and> col X1 0 = col X b
                   | _ \<Rightarrow> False)
       [0..<nat (num_actions p)]"

section \<open>The agent's update and its test\<close>

text \<open>
  Modelled from the spec: \<^verbatim>\<open>bandit_utils.sum_reward_weighted_observations\<close> is not among
  the sources. It is the reward-weighted sum of contexts \<open>X\<^sup>T r\<close> of Section 4.2.
\<close>

definition sum_reward_weighted_observations :: "vec \<Rightarrow> mat \<Rightarrow> vec" where
  "sum_reward_weighted_observations r x = map (\<lambda>c. dot c r) (matrix_transpose x)"

text \<open>
  A batch of observations is a list of (context, arm, reward) triples; \<open>X\<^sub>k\<close> and \<open>r\<^sub>k\<close> are
  the contexts and the rewards of the entries whose arm is \<open>k\<close>, in batch order.
\<close>

definition batch_contexts :: "(vec \<times> nat \<times> real) list \<Rightarrow> nat \<Rightarrow> mat" where
  "batch_contexts batch k = map fst (filter (\<lambda>(c, a, r). a = k) batch)"

definition batch_rewards :: "(vec \<times> nat \<times> real) list \<Rightarrow> nat \<Rightarrow> vec" where
  "batch_rewards batch k = map (\<lambda>(c, a, r). r) (filter (\<lambda>(c, a, r). a = k) batch)"

text \<open>
  Modelled from the spec: the update rule of the agent (\<^verbatim>\<open>lin_ucb_agent.py\<close>) is not
  among the sources, only its test is. Section 4.2, for one arm with statistics
  (covariance matrix, data vector, sample count). With \<open>n\<^sub>k > 0\<close> samples the covariance
  matrix becomes \<open>gamma * cov + X\<^sub>k\<^sup>T X\<^sub>k\<close>, the data vector \<open>gamma * data + X\<^sub>k\<^sup>T r\<^sub>k\<close>
  and the count grows by \<open>n\<^sub>k\<close> (step 3). With no sample in the batch, an arm that was
  sampled before decays: both tensors are scaled by \<open>gamma\<close>, as the note of step 2 asks
  ("decay consistently across both tensors even when \<open>n\<^sub>k = 0\<close>"). An arm that was never
  sampled keeps its statistics: Section 9 records that the reference special-cases it
  to identity and zero rather than decaying, and the repository's test, which branches
  on the arm's total number of samples, expects the identity and the zero vector for
  it after an update with \<open>gamma = 0.9\<close>.
\<close>

definition update_arm :: "real \<Rightarrow> mat \<Rightarrow> vec \<Rightarrow> mat \<times> vec \<times> real \<Rightarrow> mat \<times> vec \<times> real" where
  "update_arm gamma X r st =
     (case st of (cov, dat, num) \<Rightarrow>
        if 0 < length X then
          (madd (smult gamma cov) (matmul (matrix_transpose X) X),
           vadd (vsmult gamma dat) (sum_reward_weighted_observations r X),
           num + real (length X))
        else if 0 < num then (smult gamma cov, vsmult gamma dat, num)
        else (cov, dat, num))"

text \<open>
  Modelled from the spec: the update of the whole store (Section 4.2). A context whose
  dimension is not \<open>d\<close> rejects the batch before any arm is changed; otherwise every arm
  is updated from its part of the batch, and in eigendecomposition mode the cache is
  recomputed from the new covariance matrices. The decomposition routine
  (\<^verbatim>\<open>tf.linalg.eigh\<close>) is the parameter \<open>eigh\<close>.
\<close>

definition update ::
  "nat \<Rightarrow> real \<Rightarrow> (mat \<Rightarrow> vec \<times> mat) \<Rightarrow> bool \<Rightarrow> (vec \<times> nat \<times> real) list \<Rightarrow>
   'a statistics_store_scheme \<Rightarrow> error + 'a statistics_store_scheme" where
  "update d gamma eigh use_eig batch s =
    (if list_ex (\<lambda>(c, a, r). length c \<noteq> d) batch then Inl DimensionMismatch
     else
       (let new = map (\<lambda>k. update_arm gamma (batch_contexts batch k) (batch_rewards batch k)
                              (cov_matrix s ! k, data_vector s ! k, num_samples s ! k))
                      [0..<length (cov_matrix s)];
            new_cov = map fst new
        in Inr (s\<lparr>cov_matrix := new_cov,
                  data_vector := map (fst \<circ> snd) new,
                  num_samples := map (snd \<circ> snd) new,
                  eig_vals := (if use_eig then map (fst \<circ> eigh) new_cov else eig_vals s),
                  eig_matrix := (if use_eig then map (snd \<circ> eigh) new_cov else eig_matrix s)\<rparr>)))"

text \<open>
  The statistics the test file computes and compares with the agent's after one
  \<^verbatim>\<open>train\<close> from the initial state. \<^verbatim>\<open>tf.dynamic_partition\<close> splits the batch by arm.
\<close>

definition dynamic_partition :: "'a list \<Rightarrow> nat list \<Rightarrow> nat \<Rightarrow> 'a list list" where
  "dynamic_partition data partitions num_partitions =
     map (\<lambda>k. map fst (filter (\<lambda>(x, a). a = k) (zip data partitions))) [0..<num_partitions]"

text \<open>
  \<^verbatim>\<open>testLinearUCBUpdate\<close>: \<^verbatim>\<open>true_fn\<close>, \<^verbatim>\<open>false_fn\<close> and the \<^verbatim>\<open>tf.cond\<close> on the number of
  samples of the arm.
\<close>

definition expected_update :: "nat \<Rightarrow> mat \<Rightarrow> vec \<Rightarrow> mat \<times> vec" where
  "expected_update context_dim observations_for_arm rewards_for_arm =
     (if real (length rewards_for_arm) > 0 then
        (madd (eye context_dim)
              (matmul (matrix_transpose observations_for_arm) observations_for_arm),
         sum_reward_weighted_observations rewards_for_arm observations_for_arm)
      else (eye context_dim, zeros context_dim))"

text \<open>\<^verbatim>\<open>testLinearUCBUpdateWithForgetting\<close>: the same with the forgetting factor.\<close>

definition expected_update_with_forgetting :: "real \<Rightarrow> nat \<Rightarrow> mat \<Rightarrow> vec \<Rightarrow> mat \<times> vec" where
  "expected_update_with_forgetting gamma context_dim observations_for_arm rewards_for_arm =
     (if real (length rewards_for_arm) > 0 then
        (madd (smult gamma (eye context_dim))
              (matmul (matrix_transpose observations_for_arm) observations_for_arm),
         sum_reward_weighted_observations rewards_for_arm observations_for_arm)
      else (eye context_dim, zeros context_dim))"

text \<open>
  The loop over the arms that fills \<^verbatim>\<open>expected_a_updated_list\<close> and
  \<^verbatim>\<open>expected_b_updated_list\<close>; the test asserts that the agent's \<^verbatim>\<open>cov_matrix\<close> and
  \<^verbatim>\<open>data_vector\<close> are close to them.
\<close>

definition expected_updated_list ::
  "(nat \<Rightarrow> mat \<Rightarrow> vec \<Rightarrow> mat \<times> vec) \<Rightarrow> nat \<Rightarrow> nat \<Rightarrow> mat \<Rightarrow> nat list \<Rightarrow> vec \<Rightarrow>
   (mat \<times> vec) list" where
  "expected_updated_list expected num_arms context_dim obs act rew =
     map2 (expected context_dim)
       (dynamic_partition obs act num_arms) (dynamic_partition rew act num_arms)"

section \<open>The dtype check of a policy's action\<close>

record tensor =
  tensor_dtype :: dtype
  tensor_value :: "int list"

text \<open>
  Modelled from the spec: \<^verbatim>\<open>tf_policy.Base.action\<close> is not among the sources, only its
  test is. Section 7: an action output whose element type does not match the declared
  action specification fails with \<open>DtypeMismatch\<close> and is never coerced. The action
  specification and the output of the policy's own \<^verbatim>\<open>_action\<close> are flattened nests.
\<close>

definition tf_policy_action ::
  "bounded_tensor_spec list \<Rightarrow> (time_step \<Rightarrow> tensor list) \<Rightarrow> time_step \<Rightarrow> error + tensor list" where
  "tf_policy_action specs act ts =
     (let step = act ts in
      if list_all2 (\<lambda>v s. tensor_dtype v = spec_dtype s) step specs then Inr step
      else Inl DtypeMismatch)"

text \<open>The policies of the test file, and \<^verbatim>\<open>ts.restart\<close>.\<close>

definition restart :: "mat \<Rightarrow> time_step" where
  "restart obs = \<lparr>step_type = [0], reward = [0], discount = [1], observation = obs\<rparr>"

definition TFPolicyMismatchedDtypes_spec :: "bounded_tensor_spec list" where
  "TFPolicyMismatchedDtypes_spec =
     [\<lparr>spec_shape = [1], spec_dtype = int32, minimum = 0, maximum = 1\<rparr>]"

definition TFPolicyMismatchedDtypes_action :: "time_step \<Rightarrow> tensor list" where
  "TFPolicyMismatchedDtypes_action ts = [\<lparr>tensor_dtype = int64, tensor_value = [0]\<rparr>]"

definition TFPolicyMismatchedDtypesListAction_spec :: "bounded_tensor_spec list" where
  "TFPolicyMismatchedDtypesListAction_spec =
     [\<lparr>spec_shape = [1], spec_dtype = int64, minimum = 0, maximum = 1\<rparr>,
      \<lparr>spec_shape = [1], spec_dtype = int32, minimum = 0, maximum = 1\<rparr>]"

definition TFPolicyMismatchedDtypesListAction_action :: "time_step \<Rightarrow> tensor list" where
  "TFPolicyMismatchedDtypesListAction_action ts =
     [\<lparr>tensor_dtype = int64, tensor_value = [0]\<rparr>, \<lparr>tensor_dtype = int64, tensor_value = [0]\<rparr>]"

section \<open>Example values\<close>

text \<open>
  A policy with two arms on two-dimensional contexts, in eigendecomposition mode; the
  second arm's eigenvectors are the unit vectors in the other order. A solver for
  diagonal systems. The initial store of \<open>K\<close> arms: identity matrices and zero vectors.
\<close>

definition diag_solve :: "mat \<Rightarrow> mat \<Rightarrow> mat" where
  "diag_solve A C = map (\<lambda>i. map (\<lambda>x. x / (A ! i ! i)) (C ! i)) [0..<length A]"

definition example_policy :: LinearUCBPolicy where
  "example_policy =
     \<lparr>cov_matrix = [[[3, 0], [0, 3]], [[3, 0], [0, 0]]],
      data_vector = [[1, 1], [1, 0]],
      num_samples = [2, 1],
      eig_vals = [[3, 3], [0, 3]],
      eig_matrix = [[[1, 0], [0, 1]], [[0, 1], [1, 0]]],
      alpha = 1, use_eigendecomp = True, tikhonov_weight = 1,
      num_actions = 2, observation_dim = 2,
      action_spec = \<lparr>spec_shape = [], spec_dtype = int32, minimum = 0, maximum = 1\<rparr>\<rparr>"

definition example_time_step :: time_step where
  "example_time_step =
     \<lparr>step_type = [0, 0], reward = [0, 0], discount = [1, 1], observation = [[2, 0], [0, 2]]\<rparr>"

definition initial_store :: "nat \<Rightarrow> nat \<Rightarrow> statistics_store" where
  "initial_store K d =
     \<lparr>cov_matrix = replicate K (eye d), data_vector = replicate K (zeros d),
      num_samples = replicate K 0, eig_vals = [], eig_matrix = []\<rparr>"

text \<open>
  A store of three arms that is not the initial one: the first arm has three earlier
  samples, the other two have never been sampled.
\<close>

definition example_store :: statistics_store where
  "example_store =
     \<lparr>cov_matrix = [[[2, 1], [1, 3]], [[1, 0], [0, 1]], [[1, 0], [0, 1]]],
      data_vector = [[4, 2], [0, 0], [0, 0]],
      num_samples = [3, 0, 0], eig_vals = [], eig_matrix = []\<rparr>"

definition no_eigh :: "mat \<Rightarrow> vec \<times> mat" where
  "no_eigh A = ([], [])"

section \<open>Facts about the tensor operations\<close>

lemma argmax_less: "xs \<noteq> [] \<Longrightarrow> argmax xs < length xs"
  by (induction xs rule: argmax.induct) (auto simp: Let_def)

lemma argmax_ge: "j < length xs \<Longrightarrow> xs ! j \<le> xs ! argmax xs"
proof (induction xs arbitrary: j rule: argmax.induct)
  case 1 then show ?case by simp
next
  case (2 x) then show ?case by simp
next
  case (3 x y ys)
  show ?case
  proof (cases j)
    case 0 then show ?thesis by (simp add: Let_def)
  next
    case (Suc j')
    with 3 have "(y # ys) ! j' \<le> (y # ys) ! argmax (y # ys)" by simp
    with Suc show ?thesis by (auto simp: Let_def)
  qed
qed

lemma argmax_first: "j < argmax xs \<Longrightarrow> xs ! j < xs ! argmax xs"
proof (induction xs arbitrary: j rule: argmax.induct)
  case 1 then show ?case by simp
next
  case (2 x) then show ?case by simp
next
  case (3 x y ys)
  show ?case
  proof (cases j)
    case 0 with 3 show ?thesis by (auto simp: Let_def split: if_splits)
  next
    case (Suc j')
    with 3 show ?thesis by (auto simp: Let_def split: if_splits)
  qed
qed

lemma length_matmul: "length (matmul A B) = length A"
  by (simp add: matmul_def)

lemma einsum_j_jk_k_nth: "k < ncols M \<Longrightarrow> einsum_j_jk_k v M ! k = dot v (col M k)"
  by (simp add: einsum_j_jk_k_def)

lemma smult_one: "smult 1 M = M"
  by (simp add: smult_def map_idI)

lemma vsmult_one: "vsmult 1 v = v"
  by (simp add: vsmult_def map_idI)

lemma vadd_assoc: "vadd (vadd u v) w = vadd u (vadd v w)"
  unfolding vadd_def
proof (induction u arbitrary: v w)
  case Nil then show ?case by simp
next
  case (Cons a u)
  then show ?case by (cases v; cases w) simp_all
qed

lemma madd_assoc: "madd (madd A B) C = madd A (madd B C)"
  unfolding madd_def
proof (induction A arbitrary: B C)
  case Nil then show ?case by simp
next
  case (Cons a A)
  show ?case
  proof (cases B)
    case Nil then show ?thesis by simp
  next
    case B: (Cons b B')
    show ?thesis
    proof (cases C)
      case Nil then show ?thesis by (simp add: B)
    next
      case C: (Cons c C')
      have "map2 (+) (map2 (+) a b) c = map2 (+) a (map2 (+) b c)"
        using vadd_assoc [of a b c] by (simp add: vadd_def)
      then show ?thesis using Cons.IH [of B' C'] by (simp add: B C)
    qed
  qed
qed

lemma col_append: "col (X @ Y) j = col X j @ col Y j"
  by (simp add: col_def)

lemma dot_append: "length u = length v \<Longrightarrow> dot (u @ u') (v @ v') = dot u v + dot u' v'"
  by (simp add: dot_def)

lemma length_col: "length (col X j) = length X"
  by (simp add: col_def)

lemma ncols_rows: "X \<noteq> [] \<Longrightarrow> list_all (\<lambda>c. length c = d) X \<Longrightarrow> ncols X = d"
  by (cases X) (simp_all add: ncols_def)

lemma gram_eq:
  "matmul (matrix_transpose X) X
   = map (\<lambda>i. map (\<lambda>j. dot (col X i) (col X j)) [0..<ncols X]) [0..<ncols X]"
  by (simp add: matmul_def matrix_transpose_def)

lemma gram_append:
  assumes "X \<noteq> []" "Y \<noteq> []" "list_all (\<lambda>c. length c = d) X" "list_all (\<lambda>c. length c = d) Y"
  shows "matmul (matrix_transpose (X @ Y)) (X @ Y)
         = madd (matmul (matrix_transpose X) X) (matmul (matrix_transpose Y) Y)"
proof -
  have n: "ncols X = d" "ncols Y = d" "ncols (X @ Y) = d"
    using assms by (simp_all add: ncols_rows)
  show ?thesis
    unfolding gram_eq n madd_def
    by (simp add: list_eq_iff_nth_eq col_append dot_append length_col)
qed

lemma srwo_eq:
  "sum_reward_weighted_observations r X = map (\<lambda>j. dot (col X j) r) [0..<ncols X]"
  by (simp add: sum_reward_weighted_observations_def matrix_transpose_def)

lemma srwo_append:
  assumes "X \<noteq> []" "Y \<noteq> []" "list_all (\<lambda>c. length c = d) X" "list_all (\<lambda>c. length c = d) Y"
    "length r = length X"
  shows "sum_reward_weighted_observations (r @ r') (X @ Y)
         = vadd (sum_reward_weighted_observations r X) (sum_reward_weighted_observations r' Y)"
proof -
  have n: "ncols X = d" "ncols Y = d" "ncols (X @ Y) = d"
    using assms by (simp_all add: ncols_rows)
  show ?thesis
    unfolding srwo_eq n vadd_def using assms(5)
    by (simp add: list_eq_iff_nth_eq col_append dot_append length_col)
qed

lemma is_mat_row: "is_mat r c M \<Longrightarrow> i < r \<Longrightarrow> length (M ! i) = c"
  by (auto simp: is_mat_def list_all_length)

lemma is_mat_length: "is_mat r c M \<Longrightarrow> length M = r"
  by (simp add: is_mat_def)

lemma is_mat_ncols: "is_mat r c M \<Longrightarrow> 0 < r \<Longrightarrow> ncols M = c"
  by (cases M) (auto simp: is_mat_def ncols_def)

lemma is_matI: "length M = r \<Longrightarrow> (\<And>i. i < r \<Longrightarrow> length (M ! i) = c) \<Longrightarrow> is_mat r c M"
  by (auto simp: is_mat_def list_all_length)

lemma dot_sum: "length u = n \<Longrightarrow> length v = n \<Longrightarrow> dot u v = (\<Sum>i<n. u ! i * v ! i)"
  by (simp add: dot_def sum_list_sum_nth atLeast0LessThan)

lemma col_nth: "i < length M \<Longrightarrow> col M j ! i = M ! i ! j"
  by (simp add: col_def)

lemma matmul_entry:
  assumes "is_mat r n A" "is_mat n c B" "0 < n" "i < r" "j < c"
  shows "matmul A B ! i ! j = (\<Sum>k<n. A ! i ! k * B ! k ! j)"
proof -
  have nc: "ncols B = c" using assms by (simp add: is_mat_ncols)
  have "matmul A B ! i ! j = dot (A ! i) (col B j)"
    using assms nc by (simp add: matmul_def is_mat_length)
  also have "\<dots> = (\<Sum>k<n. A ! i ! k * col B j ! k)"
    using assms by (intro dot_sum) (simp_all add: is_mat_row length_col is_mat_length)
  also have "\<dots> = (\<Sum>k<n. A ! i ! k * B ! k ! j)"
    using assms by (intro sum.cong refl) (simp add: col_nth is_mat_length)
  finally show ?thesis .
qed

lemma matmul_is_mat:
  assumes "is_mat r n A" "is_mat n c B" "0 < n"
  shows "is_mat r c (matmul A B)"
  using assms by (intro is_matI) (simp_all add: matmul_def is_mat_length is_mat_ncols)

lemma transpose_is_mat:
  assumes "is_mat r c M" "0 < r"
  shows "is_mat c r (matrix_transpose M)"
  using assms by (intro is_matI) (simp_all add: matrix_transpose_def is_mat_ncols length_col is_mat_length)

lemma transpose_entry:
  assumes "is_mat r c M" "0 < r" "i < r" "j < c"
  shows "matrix_transpose M ! j ! i = M ! i ! j"
  using assms by (simp add: matrix_transpose_def is_mat_ncols col_nth is_mat_length)

lemma einsum_jk_is_mat:
  assumes "length v = r" "is_mat r c M"
  shows "is_mat r c (einsum_j_jk_jk v M)"
  using assms by (intro is_matI) (simp_all add: einsum_j_jk_jk_def is_mat_length is_mat_row)

lemma einsum_jk_entry:
  assumes "length v = r" "is_mat r c M" "i < r" "j < c"
  shows "einsum_j_jk_jk v M ! i ! j = v ! i * M ! i ! j"
  using assms by (simp add: einsum_j_jk_jk_def is_mat_length is_mat_row)

lemma eye_is_mat: "is_mat d d (eye d)"
  by (intro is_matI) (simp_all add: eye_def)

lemma eye_entry: "i < d \<Longrightarrow> j < d \<Longrightarrow> eye d ! i ! j = (if i = j then 1 else 0)"
  by (simp add: eye_def)

lemma madd_entry:
  assumes "is_mat r c A" "is_mat r c B" "i < r" "j < c"
  shows "madd A B ! i ! j = A ! i ! j + B ! i ! j"
  using assms by (simp add: madd_def is_mat_length is_mat_row)

lemma madd_is_mat: "is_mat r c A \<Longrightarrow> is_mat r c B \<Longrightarrow> is_mat r c (madd A B)"
  by (intro is_matI) (simp_all add: madd_def is_mat_length is_mat_row)

lemma smult_entry:
  assumes "is_mat r c A" "i < r" "j < c"
  shows "smult t A ! i ! j = t * A ! i ! j"
  using assms by (simp add: smult_def is_mat_length is_mat_row)

lemma smult_is_mat: "is_mat r c A \<Longrightarrow> is_mat r c (smult t A)"
  by (intro is_matI) (simp_all add: smult_def is_mat_length is_mat_row)

lemma mat_eqI:
  assumes "is_mat r c M" "is_mat r c N" "\<And>i j. i < r \<Longrightarrow> j < c \<Longrightarrow> M ! i ! j = N ! i ! j"
  shows "M = N"
proof (rule nth_equalityI)
  show "length M = length N" using assms by (simp add: is_mat_length)
next
  fix i assume "i < length M"
  then have i: "i < r" using assms by (simp add: is_mat_length)
  show "M ! i = N ! i"
    using assms i by (intro nth_equalityI) (simp_all add: is_mat_row)
qed

text \<open>
  The algebra behind the cached solve, on the entries: with \<open>V\<close> orthogonal and
  \<open>A = V diag(L) V\<^sup>T + t I\<close>, every solution \<open>X\<close> of \<open>A X = C\<close> is
  \<open>V diag(1 / (L + t)) V\<^sup>T C\<close>.
\<close>

lemma eig_solve_abstract:
  fixes V A :: "nat \<Rightarrow> nat \<Rightarrow> real" and L X C :: "nat \<Rightarrow> real"
  assumes o1: "\<And>j k. j < d \<Longrightarrow> k < d \<Longrightarrow> (\<Sum>m<d. V m j * V m k) = (if j = k then 1 else 0)"
      and o2: "\<And>i l. i < d \<Longrightarrow> l < d \<Longrightarrow> (\<Sum>j<d. V i j * V l j) = (if i = l then 1 else 0)"
      and A: "\<And>m l. m < d \<Longrightarrow> l < d \<Longrightarrow>
                A m l = (\<Sum>k<d. V m k * (L k * V l k)) + t * (if m = l then 1 else 0)"
      and ns: "\<And>j. j < d \<Longrightarrow> L j + t \<noteq> 0"
      and sol: "\<And>m. m < d \<Longrightarrow> (\<Sum>l<d. A m l * X l) = C m"
      and i: "i < d"
  shows "(\<Sum>j<d. V i j * (1 / (L j + t) * (\<Sum>m<d. V m j * C m))) = X i"
proof -
  have s1: "(\<Sum>m<d. V m j * A m l) = (L j + t) * V l j" if j: "j < d" and l: "l < d" for j l
  proof -
    have "(\<Sum>m<d. V m j * A m l)
        = (\<Sum>m<d. (\<Sum>k<d. V m j * V m k * (L k * V l k)) + V m j * (t * (if m = l then 1 else 0)))"
      using l by (intro sum.cong refl) (simp add: A sum_distrib_left algebra_simps)
    also have "\<dots> = (\<Sum>m<d. \<Sum>k<d. V m j * V m k * (L k * V l k))
                    + (\<Sum>m<d. V m j * (t * (if m = l then 1 else 0)))"
      by (simp add: sum.distrib)
    also have "(\<Sum>m<d. \<Sum>k<d. V m j * V m k * (L k * V l k))
             = (\<Sum>k<d. (\<Sum>m<d. V m j * V m k) * (L k * V l k))"
      by (subst sum.swap) (simp add: sum_distrib_right)
    also have "\<dots> = (\<Sum>k<d. (if j = k then 1 else 0) * (L k * V l k))"
      using j by (intro sum.cong refl) (simp add: o1)
    also have "\<dots> = L j * V l j"
      using j by (simp add: if_distrib [of "\<lambda>x. x * _"] cong: if_cong)
    also have "(\<Sum>m<d. V m j * (t * (if m = l then 1 else 0))) = t * V l j"
      using l by (simp add: if_distrib [of "\<lambda>x. _ * x"] cong: if_cong)
    finally show ?thesis by (simp add: algebra_simps)
  qed
  have s2: "(\<Sum>m<d. V m j * C m) = (L j + t) * (\<Sum>l<d. V l j * X l)" if j: "j < d" for j
  proof -
    have "(\<Sum>m<d. V m j * C m) = (\<Sum>m<d. \<Sum>l<d. V m j * A m l * X l)"
      by (intro sum.cong refl) (simp add: sol [symmetric] sum_distrib_left algebra_simps)
    also have "\<dots> = (\<Sum>l<d. (\<Sum>m<d. V m j * A m l) * X l)"
      by (subst sum.swap) (simp add: sum_distrib_right)
    also have "\<dots> = (\<Sum>l<d. (L j + t) * V l j * X l)"
      using j by (intro sum.cong refl) (simp add: s1)
    finally show ?thesis by (simp add: sum_distrib_left algebra_simps)
  qed
  have "(\<Sum>j<d. V i j * (1 / (L j + t) * (\<Sum>m<d. V m j * C m)))
      = (\<Sum>j<d. V i j * (\<Sum>l<d. V l j * X l))"
    using ns by (intro sum.cong refl) (simp add: s2)
  also have "\<dots> = (\<Sum>j<d. \<Sum>l<d. V i j * V l j * X l)"
    by (simp add: sum_distrib_left algebra_simps)
  also have "\<dots> = (\<Sum>l<d. (\<Sum>j<d. V i j * V l j) * X l)"
    by (subst sum.swap) (simp add: sum_distrib_right)
  also have "\<dots> = (\<Sum>l<d. (if i = l then 1 else 0) * X l)"
    using i by (intro sum.cong refl) (simp add: o2)
  also have "\<dots> = X i"
    using i by (simp add: if_distrib [of "\<lambda>x. x * _"] cong: if_cong)
  finally show ?thesis .
qed

lemma eig_solve_eq:
  assumes dec: "is_eigendecomposition d cov lam V" and d: "0 < d"
    and C: "is_mat d B C"
    and ns: "list_all (\<lambda>l. l + t \<noteq> 0) lam"
    and X: "is_mat d B X" and sol: "matmul (madd cov (smult t (eye d))) X = C"
  shows "matmul V (einsum_j_jk_jk (map (\<lambda>l. 1 / (l + t)) lam) (matmul (matrix_transpose V) C)) = X"
proof (rule mat_eqI [of d B])
  have cov: "is_mat d d cov" and V: "is_mat d d V" and lam: "length lam = d"
    and o1: "matmul (matrix_transpose V) V = eye d"
    and o2: "matmul V (matrix_transpose V) = eye d"
    and A: "cov = matmul V (einsum_j_jk_jk lam (matrix_transpose V))"
    using dec unfolding is_eigendecomposition_def by blast+
  have Vt: "is_mat d d (matrix_transpose V)" using V d by (rule transpose_is_mat)
  have VtC: "is_mat d B (matmul (matrix_transpose V) C)" using Vt C d by (rule matmul_is_mat)
  let ?linv = "map (\<lambda>l. 1 / (l + t)) lam"
  have linv: "length ?linv = d" using lam by simp
  have E: "is_mat d B (einsum_j_jk_jk ?linv (matmul (matrix_transpose V) C))"
    using linv VtC by (rule einsum_jk_is_mat)
  show "is_mat d B (matmul V (einsum_j_jk_jk ?linv (matmul (matrix_transpose V) C)))"
    using V E d by (rule matmul_is_mat)
  show "is_mat d B X" by (rule X)
  have LVt: "is_mat d d (einsum_j_jk_jk lam (matrix_transpose V))"
    using lam Vt by (rule einsum_jk_is_mat)
  have tI: "is_mat d d (smult t (eye d))" by (rule smult_is_mat [OF eye_is_mat])
  have AA: "is_mat d d (madd cov (smult t (eye d)))" using cov tI by (rule madd_is_mat)
  fix i b assume i: "i < d" and b: "b < B"
  have h1: "(\<Sum>m<d. V ! m ! j * V ! m ! k) = (if j = k then 1 else 0)" if "j < d" "k < d" for j k
  proof -
    have "(\<Sum>m<d. V ! m ! j * V ! m ! k) = (\<Sum>m<d. matrix_transpose V ! j ! m * V ! m ! k)"
      using that V d by (intro sum.cong refl) (simp add: transpose_entry)
    also have "\<dots> = matmul (matrix_transpose V) V ! j ! k"
      using matmul_entry [OF Vt V d that] by simp
    finally show ?thesis using that by (simp add: o1 eye_entry)
  qed
  have h2: "(\<Sum>j<d. V ! i ! j * V ! l ! j) = (if i = l then 1 else 0)" if "i < d" "l < d" for i l
  proof -
    have "(\<Sum>j<d. V ! i ! j * V ! l ! j) = (\<Sum>j<d. V ! i ! j * matrix_transpose V ! j ! l)"
      using that V d by (intro sum.cong refl) (simp add: transpose_entry)
    also have "\<dots> = matmul V (matrix_transpose V) ! i ! l"
      using matmul_entry [OF V Vt d that] by simp
    finally show ?thesis using that by (simp add: o2 eye_entry)
  qed
  have h3: "madd cov (smult t (eye d)) ! m ! l
          = (\<Sum>k<d. V ! m ! k * (lam ! k * V ! l ! k)) + t * (if m = l then 1 else 0)"
    if "m < d" "l < d" for m l
  proof -
    have "cov ! m ! l = (\<Sum>k<d. V ! m ! k * einsum_j_jk_jk lam (matrix_transpose V) ! k ! l)"
      unfolding A using matmul_entry [OF V LVt d that] .
    also have "\<dots> = (\<Sum>k<d. V ! m ! k * (lam ! k * V ! l ! k))"
      using that V d lam Vt by (intro sum.cong refl) (simp add: einsum_jk_entry transpose_entry)
    finally show ?thesis
      using that cov tI by (simp add: madd_entry smult_entry [OF eye_is_mat] eye_entry)
  qed
  have h4: "lam ! j + t \<noteq> 0" if "j < d" for j
    using ns lam that by (simp add: list_all_length)
  have h5: "(\<Sum>l<d. madd cov (smult t (eye d)) ! m ! l * X ! l ! b) = C ! m ! b" if "m < d" for m
    using matmul_entry [OF AA X d that b] by (simp add: sol)
  have "matmul V (einsum_j_jk_jk ?linv (matmul (matrix_transpose V) C)) ! i ! b
      = (\<Sum>j<d. V ! i ! j * einsum_j_jk_jk ?linv (matmul (matrix_transpose V) C) ! j ! b)"
    using V E d i b by (rule matmul_entry)
  also have "\<dots> = (\<Sum>j<d. V ! i ! j * (1 / (lam ! j + t) * (\<Sum>m<d. V ! m ! j * C ! m ! b)))"
  proof (intro sum.cong refl)
    fix j assume "j \<in> {..<d}"
    then have j: "j < d" by simp
    have "matmul (matrix_transpose V) C ! j ! b = (\<Sum>m<d. matrix_transpose V ! j ! m * C ! m ! b)"
      using Vt C d j b by (rule matmul_entry)
    also have "\<dots> = (\<Sum>m<d. V ! m ! j * C ! m ! b)"
      using j V d by (intro sum.cong refl) (simp add: transpose_entry)
    finally show "V ! i ! j * einsum_j_jk_jk ?linv (matmul (matrix_transpose V) C) ! j ! b
         = V ! i ! j * (1 / (lam ! j + t) * (\<Sum>m<d. V ! m ! j * C ! m ! b))"
      using einsum_jk_entry [OF linv VtC j b] j lam by simp
  qed
  also have "\<dots> = X ! i ! b"
    by (rule eig_solve_abstract [where A = "\<lambda>m l. madd cov (smult t (eye d)) ! m ! l"
          and V = "\<lambda>i j. V ! i ! j" and L = "\<lambda>j. lam ! j" and X = "\<lambda>l. X ! l ! b"
          and C = "\<lambda>m. C ! m ! b", OF h1 h2 h3 h4 h5 i])
  finally show "matmul V (einsum_j_jk_jk ?linv (matmul (matrix_transpose V) C)) ! i ! b = X ! i ! b" .
qed

section \<open>Facts about the loop of the policy\<close>

lemma p_value_Inr:
  assumes "solve_arm cg p obs k = Inr X" "k < length (data_vector p)"
  shows "p_value cg p obs k =
     Inr (madd (reshape_column (einsum_j_jk_k (data_vector p ! k) X))
               (smult (alpha p) (msqrt (reshape_column (tensor_diag_part (matmul obs X))))))"
  using assms by (simp add: p_value_def)

lemma score_entry:
  assumes "b < length obs" "b < ncols X"
  shows "madd (reshape_column (einsum_j_jk_k v X))
               (smult a (msqrt (reshape_column (tensor_diag_part (matmul obs X))))) ! b
         = [dot v (col X b) + a * sqrt (dot (obs ! b) (col X b))]"
  using assms
  by (simp add: madd_def smult_def msqrt_def reshape_column_def tensor_diag_part_def
      einsum_j_jk_k_def matmul_def)

lemma score_length:
  "length (madd (reshape_column (einsum_j_jk_k v X))
               (smult a (msqrt (reshape_column (tensor_diag_part (matmul obs X))))))
   = min (ncols X) (length obs)"
  by (simp add: madd_def smult_def msqrt_def reshape_column_def tensor_diag_part_def
      einsum_j_jk_k_def matmul_def)

lemma p_value_entry:
  assumes "solve_arm cg p obs k = Inr a_inv_x"
      and "k < length (data_vector p)"
      and "b < length obs"
      and "ncols a_inv_x = length obs"
  shows "\<exists>pv. p_value cg p obs k = Inr pv \<and> length pv = length obs \<and>
           pv ! b = [dot (data_vector p ! k) (col a_inv_x b)
                     + alpha p * sqrt (dot (obs ! b) (col a_inv_x b))]"
proof -
  have b: "b < ncols a_inv_x" using assms by simp
  show ?thesis
    using p_value_Inr [OF assms(1,2)] score_entry [OF assms(3) b]
      score_length [of "data_vector p ! k" a_inv_x "alpha p" obs] assms(4)
    by simp
qed

lemma p_values_loop_Inr:
  "p_values_loop cg p obs ks = Inr pvs \<Longrightarrow>
   length pvs = length ks \<and> (\<forall>i<length ks. p_value cg p obs (ks ! i) = Inr (pvs ! i))"
proof (induction ks arbitrary: pvs)
  case Nil then show ?case by simp
next
  case (Cons k ks)
  then show ?case
    by (auto split: sum.splits simp: nth_Cons split: nat.splits)
qed

lemma p_values_loop_cong:
  "(\<And>k. k \<in> set ks \<Longrightarrow> p_value cg q obs k = p_value cg' p obs k) \<Longrightarrow>
   p_values_loop cg q obs ks = p_values_loop cg' p obs ks"
proof (induction ks)
  case Nil
  show ?case by simp
next
  case (Cons a ks)
  have "p_values_loop cg q obs ks = p_values_loop cg' p obs ks"
    by (rule Cons.IH) (simp add: Cons.prems)
  moreover have "p_value cg q obs a = p_value cg' p obs a"
    by (rule Cons.prems) simp
  ultimately show ?case by (simp split: sum.splits)
qed

lemma distribution_Inr:
  assumes "distribution cg p ts ps = (Inr step, p')"
  shows "\<exists>pvs. p_values_loop cg p (observation ts) [0..<nat (num_actions p)] = Inr pvs \<and> pvs \<noteq> [] \<and>
           action step = map (\<lambda>row. int (argmax row)) (squeeze_stack pvs) \<and> state step = ps"
  using assms
  by (auto simp: distribution_def split: if_splits sum.splits list.splits)

lemma p_value_data_vector: "p_value cg p obs k = Inr v \<Longrightarrow> k < length (data_vector p)"
  by (auto simp: p_value_def split: sum.splits if_splits)

lemma p_values_loop_map:
  "(\<And>k. k \<in> set ks \<Longrightarrow> p_value cg p obs k = Inr (f k)) \<Longrightarrow>
   p_values_loop cg p obs ks = Inr (map f ks)"
proof (induction ks)
  case Nil
  show ?case by simp
next
  case (Cons a ks)
  have "p_values_loop cg p obs ks = Inr (map f ks)"
    by (rule Cons.IH) (simp add: Cons.prems)
  moreover have "p_value cg p obs a = Inr (f a)"
    by (rule Cons.prems) simp
  ultimately show ?case by simp
qed

lemma single_context_action:
  assumes dist: "distribution cg p ts ps = (Inr step, p')"
      and solve: "\<And>k. k < nat (num_actions p) \<Longrightarrow> solve_arm cg p (observation ts) k = Inr (X k)"
      and b: "b < length (observation ts)"
      and cw: "solves_contextwise cg p (observation ts) b"
      and row: "row = map (\<lambda>k. spec_score p k (observation ts ! b) (col (X k) b))
                   [0..<nat (num_actions p)]"
  shows "distribution cg p (ts\<lparr>observation := [observation ts ! b]\<rparr>) ps
         = (Inr \<lparr>action = [int (argmax row)], state = ps\<rparr>, p)"
proof -
  let ?K = "nat (num_actions p)" and ?obs = "observation ts" and ?c = "observation ts ! b"
  from distribution_Inr [OF dist] obtain pvs where
    loop: "p_values_loop cg p ?obs [0..<?K] = Inr pvs" and ne: "pvs \<noteq> []" by blast
  from p_values_loop_Inr [OF loop]
  have len: "length pvs = ?K" and pv: "\<And>k. k < ?K \<Longrightarrow> p_value cg p ?obs k = Inr (pvs ! k)"
    by auto
  from ne len have K: "0 < ?K" by (cases pvs) auto
  have chk: "list_all (\<lambda>r. length r = observation_dim p) ?obs" and dv: "data_vector p \<noteq> []"
    using dist by (auto simp: distribution_def split: if_splits)
  have chk1: "list_all (\<lambda>r. length r = observation_dim p) [?c]"
    using chk b by (simp add: list_all_length)
  have one: "p_value cg p [?c] k = Inr [[row ! k]]" if k: "k < ?K" for k
  proof -
    have "k \<in> set [0..<?K]" using k by simp
    from cw [unfolded solves_contextwise_def list_all_iff, rule_format, OF this]
    obtain X1 where
      s1: "solve_arm cg p [?c] k = Inr X1" and n1: "ncols X1 = 1" and c1: "col X1 0 = col (X k) b"
      unfolding solve [OF k] by (cases "solve_arm cg p [?c] k") auto
    from p_value_entry [OF s1 p_value_data_vector [OF pv [OF k]], of 0] n1
    obtain pv1 where "p_value cg p [?c] k = Inr pv1" "length pv1 = 1"
      "pv1 ! 0 = [dot (data_vector p ! k) (col X1 0) + alpha p * sqrt (dot ?c (col X1 0))]"
      by auto
    moreover from this have "pv1 = [[row ! k]]"
      using k by (cases pv1) (simp_all add: row spec_score_def c1)
    ultimately show ?thesis by simp
  qed
  define pvs1 where "pvs1 = map (\<lambda>k. [[row ! k]]) [0..<?K]"
  have loop1: "p_values_loop cg p [?c] [0..<?K] = Inr pvs1"
    unfolding pvs1_def by (rule p_values_loop_map) (simp add: one)
  have rl: "length row = ?K" by (simp add: row)
  have "map (\<lambda>pv. pv ! 0 ! 0) pvs1 = row"
    by (simp add: pvs1_def list_eq_iff_nth_eq rl)
  moreover have "length (pvs1 ! 0) = 1"
    using K by (simp add: pvs1_def)
  ultimately have sq: "squeeze_stack pvs1 = [row]"
    by (simp add: squeeze_stack_def)
  obtain a as where cons: "pvs1 = a # as"
    using K by (cases pvs1) (auto simp: pvs1_def)
  have "observation (ts\<lparr>observation := [?c]\<rparr>) = [?c]" by simp
  then show ?thesis
    using chk1 dv loop1 sq unfolding cons
    by (simp add: distribution_def)
qed

lemma matmul_shape: "is_mat (length A) (ncols C) (matmul A C)"
  by (intro is_matI) (simp_all add: matmul_def)

lemma col_matmul: "b < ncols C \<Longrightarrow> col (matmul A C) b = map (\<lambda>r. dot r (col C b)) A"
  by (simp add: col_def matmul_def)

lemma einsum_jk_shape:
  "is_mat r n M \<Longrightarrow> is_mat (min (length l) r) n (einsum_j_jk_jk l M)"
  by (intro is_matI) (auto simp: einsum_j_jk_jk_def is_mat_length is_mat_row)

lemma col_einsum_jk:
  assumes "is_mat r n M" "b < n"
  shows "col (einsum_j_jk_jk l M) b = map2 (*) l (col M b)"
  using assms
  by (auto simp: col_def einsum_j_jk_jk_def list_eq_iff_nth_eq is_mat_length is_mat_row)

lemma col_transpose:
  assumes "list_all (\<lambda>r. length r = d) obs" "b < length obs"
  shows "col (matrix_transpose obs) b = obs ! b"
proof -
  have "ncols obs = d" using assms by (cases obs) (auto simp: ncols_def)
  moreover have "length (obs ! b) = d" using assms by (simp add: list_all_length)
  ultimately show ?thesis
    using assms(2) by (simp add: col_def matrix_transpose_def list_eq_iff_nth_eq)
qed

lemma ncols_transpose:
  assumes "list_all (\<lambda>r. length r = d) obs" "obs \<noteq> []" "0 < d"
  shows "ncols (matrix_transpose obs) = length obs"
proof -
  have "ncols obs = d" using assms by (cases obs) (auto simp: ncols_def)
  then obtain d' where "ncols obs = Suc d'" using assms(3) by (cases d) auto
  then show ?thesis
    by (simp add: matrix_transpose_def ncols_def upt_conv_Cons length_col del: upt_Suc)
qed

lemma eig_solves_contextwise:
  assumes eig: "use_eigendecomp p"
      and valid: "eig_cache_valid p"
      and d: "0 < observation_dim p"
      and rows: "list_all (\<lambda>r. length r = observation_dim p) obs"
      and b: "b < length obs"
  shows "solves_contextwise cg p obs b"
  unfolding solves_contextwise_def list_all_iff
proof
  fix k assume "k \<in> set [0..<nat (num_actions p)]"
  then have k: "k < nat (num_actions p)" by simp
  let ?d = "observation_dim p" and ?c = "obs ! b"
  let ?V = "eig_matrix p ! k" and ?l = "map (\<lambda>l. 1 / (l + tikhonov_weight p)) (eig_vals p ! k)"
  from valid k have kv: "k < length (eig_vals p)" and km: "k < length (eig_matrix p)"
    and dec: "is_eigendecomposition ?d (cov_matrix p ! k) (eig_vals p ! k) ?V"
    by (simp_all add: eig_cache_valid_def list_all_length)
  from dec have V: "is_mat ?d ?d ?V" and lam: "length (eig_vals p ! k) = ?d"
    unfolding is_eigendecomposition_def by blast+
  have Vt: "is_mat ?d ?d (matrix_transpose ?V)" using V d by (rule transpose_is_mat)
  have ne: "obs \<noteq> []" using b by auto
  have rows1: "list_all (\<lambda>r. length r = ?d) [?c]" using rows b by (simp add: list_all_length)
  let ?C = "matrix_transpose obs" and ?C1 = "matrix_transpose [?c]"
  have nC: "ncols ?C = length obs" using rows ne d by (rule ncols_transpose)
  have nC1: "ncols ?C1 = 1" using ncols_transpose [OF rows1 _ d] by simp
  have cC: "col ?C b = ?c" using rows b by (rule col_transpose)
  have cC1: "col ?C1 0 = ?c" using col_transpose [OF rows1, of 0] by simp
  let ?Q = "matmul (matrix_transpose ?V) ?C" and ?Q1 = "matmul (matrix_transpose ?V) ?C1"
  have Q: "is_mat ?d (length obs) ?Q" using matmul_shape [of "matrix_transpose ?V" ?C] Vt nC
    by (simp add: is_mat_length)
  have Q1: "is_mat ?d 1 ?Q1" using matmul_shape [of "matrix_transpose ?V" ?C1] Vt nC1
    by (simp add: is_mat_length)
  have cQ: "col ?Q b = col ?Q1 0"
    using b by (simp add: col_matmul nC nC1 cC cC1)
  let ?E = "einsum_j_jk_jk ?l ?Q" and ?E1 = "einsum_j_jk_jk ?l ?Q1"
  have E: "is_mat ?d (length obs) ?E" using einsum_jk_shape [OF Q, of ?l] lam by simp
  have E1: "is_mat ?d 1 ?E1" using einsum_jk_shape [OF Q1, of ?l] lam by simp
  have cE: "col ?E b = col ?E1 0"
    using col_einsum_jk [OF Q b, of ?l] col_einsum_jk [OF Q1, of 0 ?l] cQ by simp
  have nE: "ncols ?E = length obs" using E d by (rule is_mat_ncols)
  have nE1: "ncols ?E1 = 1" using E1 d by (rule is_mat_ncols)
  have X1: "is_mat ?d 1 (matmul ?V ?E1)"
    using matmul_shape [of ?V ?E1] V nE1 by (simp add: is_mat_length)
  have "ncols (matmul ?V ?E1) = 1" using X1 d by (rule is_mat_ncols)
  moreover have "col (matmul ?V ?E1) 0 = col (matmul ?V ?E) b"
    using b by (simp add: col_matmul nE nE1 cE)
  ultimately show "case (solve_arm cg p obs k, solve_arm cg p [?c] k) of
                     (Inr X, Inr X1) \<Rightarrow> ncols X1 = 1 \<and> col X1 0 = col X b
                   | _ \<Rightarrow> False"
    using eig kv km by (simp add: solve_arm_def)
qed

lemma solve_arm_direct_eq:
  fixes p :: "'a LinearUCBPolicy_scheme"
  assumes eig: "use_eigendecomp p"
      and valid: "eig_cache_valid p"
      and d: "0 < observation_dim p"
      and obs: "is_mat B (observation_dim p) obs" and B: "0 < B"
      and solver: "list_all (\<lambda>k. exact_solve cg (observation_dim p) B
                     (madd (cov_matrix p ! k) (smult (tikhonov_weight p) (eye (observation_dim p))))
                     (matrix_transpose obs)) [0..<nat (num_actions p)]"
      and k: "k < nat (num_actions p)"
  shows "solve_arm cg (direct_solve_policy p) obs k = solve_arm cg p obs k"
proof -
  let ?d = "observation_dim p"
  let ?A = "madd (cov_matrix p ! k) (smult (tikhonov_weight p) (eye ?d))"
  have C: "is_mat ?d B (matrix_transpose obs)" using obs B by (rule transpose_is_mat)
  from valid k have kc: "k < length (cov_matrix p)" and kv: "k < length (eig_vals p)"
    and km: "k < length (eig_matrix p)"
    and dec: "is_eigendecomposition ?d (cov_matrix p ! k) (eig_vals p ! k) (eig_matrix p ! k)"
    and ns: "list_all (\<lambda>l. l + tikhonov_weight p \<noteq> 0) (eig_vals p ! k)"
    by (simp_all add: eig_cache_valid_def list_all_length)
  from solver k have X: "is_mat ?d B (cg ?A (matrix_transpose obs))"
    and sol: "matmul ?A (cg ?A (matrix_transpose obs)) = matrix_transpose obs"
    by (simp_all add: exact_solve_def list_all_length)
  have "solve_arm cg (direct_solve_policy p) obs k = Inr (cg ?A (matrix_transpose obs))"
    using kc by (simp add: solve_arm_def direct_solve_policy_def)
  moreover have "solve_arm cg p obs k = Inr (cg ?A (matrix_transpose obs))"
    using eig kv km eig_solve_eq [OF dec d C ns X sol]
    by (simp add: solve_arm_def)
  ultimately show ?thesis by simp
qed

text \<open>
  So the direct solve works context by context too, when the solver returns a solution
  for the batch and for the single context.
\<close>

lemma direct_solves_contextwise:
  fixes p :: "'a LinearUCBPolicy_scheme"
  assumes eig: "use_eigendecomp p"
      and valid: "eig_cache_valid p"
      and d: "0 < observation_dim p"
      and obs: "is_mat B (observation_dim p) obs" and b: "b < B"
      and solver: "list_all (\<lambda>k. exact_solve cg (observation_dim p) B
                     (madd (cov_matrix p ! k) (smult (tikhonov_weight p) (eye (observation_dim p))))
                     (matrix_transpose obs)) [0..<nat (num_actions p)]"
      and solver1: "list_all (\<lambda>k. exact_solve cg (observation_dim p) 1
                     (madd (cov_matrix p ! k) (smult (tikhonov_weight p) (eye (observation_dim p))))
                     (matrix_transpose [obs ! b])) [0..<nat (num_actions p)]"
  shows "solves_contextwise cg (direct_solve_policy p) obs b"
proof -
  have B: "0 < B" using b by simp
  have rows: "list_all (\<lambda>r. length r = observation_dim p) obs" and len: "b < length obs"
    using obs b by (simp_all add: is_mat_def)
  have obs1: "is_mat 1 (observation_dim p) [obs ! b]"
    using rows len by (simp add: is_mat_def list_all_length)
  have cw: "solves_contextwise cg p obs b"
    using eig valid d rows len by (rule eig_solves_contextwise)
  have n: "num_actions (direct_solve_policy p) = num_actions p"
    by (simp add: direct_solve_policy_def)
  show ?thesis
    unfolding solves_contextwise_def list_all_iff n
  proof
    fix k assume kk: "k \<in> set [0..<nat (num_actions p)]"
    then have k: "k < nat (num_actions p)" by simp
    have "solve_arm cg (direct_solve_policy p) obs k = solve_arm cg p obs k"
      using eig valid d obs B solver k by (rule solve_arm_direct_eq)
    moreover have "solve_arm cg (direct_solve_policy p) [obs ! b] k = solve_arm cg p [obs ! b] k"
      using eig valid d obs1 _ solver1 k by (rule solve_arm_direct_eq) simp
    ultimately show "case (solve_arm cg (direct_solve_policy p) obs k,
                           solve_arm cg (direct_solve_policy p) [obs ! b] k) of
                     (Inr X, Inr X1) \<Rightarrow> ncols X1 = 1 \<and> col X1 0 = col X b
                   | _ \<Rightarrow> False"
      using cw [unfolded solves_contextwise_def list_all_iff, rule_format, OF kk] by simp
  qed
qed

section \<open>Facts about the update\<close>

lemma batch_contexts_append: "batch_contexts (b1 @ b2) k = batch_contexts b1 k @ batch_contexts b2 k"
  by (simp add: batch_contexts_def)

lemma batch_rewards_append: "batch_rewards (b1 @ b2) k = batch_rewards b1 k @ batch_rewards b2 k"
  by (simp add: batch_rewards_def)

lemma length_batch_rewards: "length (batch_rewards b k) = length (batch_contexts b k)"
  by (simp add: batch_rewards_def batch_contexts_def)

lemma batch_contexts_dim:
  "\<not> list_ex (\<lambda>(c, a, r). length c \<noteq> d) b \<Longrightarrow> list_all (\<lambda>c. length c = d) (batch_contexts b k)"
  by (auto simp: batch_contexts_def list_all_iff list_ex_iff)

lemma update_arm_append:
  assumes "list_all (\<lambda>c. length c = d) X" "list_all (\<lambda>c. length c = d) Y" "length r = length X"
    "length r' = length Y"
  shows "update_arm 1 (X @ Y) (r @ r') st = update_arm 1 Y r' (update_arm 1 X r st)"
proof (cases st)
  case (fields cov dat num)
  show ?thesis
  proof (cases "X = []")
    case True
    then show ?thesis using assms(3) by (simp add: fields update_arm_def smult_one vsmult_one)
  next
    case X: False
    show ?thesis
    proof (cases "Y = []")
      case True
      then show ?thesis using X assms(4) by (simp add: fields update_arm_def smult_one vsmult_one)
    next
      case Y: False
      show ?thesis using X Y
        by (simp add: fields update_arm_def smult_one vsmult_one madd_assoc vadd_assoc
            gram_append [OF X Y assms(1,2)] srwo_append [OF X Y assms(1,2,3)])
    qed
  qed
qed

lemma filter_zip_empty: "k \<notin> set act \<Longrightarrow> filter (\<lambda>(x, a). a = k) (zip xs act) = []"
  by (auto simp: filter_empty_conv dest: set_zip_rightD)

lemma update_returns:
  assumes "list_all (\<lambda>(c, a, r). length c = d) batch"
  shows "\<exists>s'. update d gamma eigh use_eig batch s = Inr s'"
proof -
  have "\<not> list_ex (\<lambda>(c, a, r). length c \<noteq> d) batch"
    using assms by (auto simp: list_all_iff list_ex_iff)
  then show ?thesis by (simp add: update_def Let_def)
qed

lemma update_rejects:
  assumes "\<not> list_all (\<lambda>(c, a, r). length c = d) batch"
  shows "update d gamma eigh use_eig batch s = Inl DimensionMismatch"
proof -
  have "list_ex (\<lambda>(c, a, r). length c \<noteq> d) batch"
    using assms by (auto simp: list_all_iff list_ex_iff)
  then show ?thesis by (simp add: update_def)
qed

lemma update_arm_result:
  assumes "update d gamma eigh use_eig batch s = Inr s'"
      and "k < length (cov_matrix s)"
      and "0 < length (batch_contexts batch k)"
  shows "cov_matrix s' ! k
           = madd (smult gamma (cov_matrix s ! k))
                  (matmul (matrix_transpose (batch_contexts batch k)) (batch_contexts batch k)) \<and>
         data_vector s' ! k
           = vadd (vsmult gamma (data_vector s ! k))
                  (map (\<lambda>c. dot c (batch_rewards batch k))
                     (matrix_transpose (batch_contexts batch k))) \<and>
         num_samples s' ! k = num_samples s ! k + real (length (batch_contexts batch k))"
  using assms
  by (auto simp: update_def Let_def update_arm_def sum_reward_weighted_observations_def
      split: if_splits)

lemma update_append:
  assumes "update d 1 eigh use_eig b1 s = Inr s1"
      and "update d 1 eigh use_eig b2 s1 = Inr s2"
  shows "update d 1 eigh use_eig (b1 @ b2) s = Inr s2"
proof -
  have ok1: "\<not> list_ex (\<lambda>(c, a, r). length c \<noteq> d) b1"
    using assms(1) by (auto simp: update_def split: if_splits)
  have ok2: "\<not> list_ex (\<lambda>(c, a, r). length c \<noteq> d) b2"
    using assms(2) by (auto simp: update_def split: if_splits)
  have ok: "\<not> list_ex (\<lambda>(c, a, r). length c \<noteq> d) (b1 @ b2)"
    using ok1 ok2 by (auto simp: list_ex_iff)
  let ?arm = "\<lambda>b s k. update_arm 1 (batch_contexts b k) (batch_rewards b k)
                              (cov_matrix s ! k, data_vector s ! k, num_samples s ! k)"
  define n1 where "n1 = map (?arm b1 s) [0..<length (cov_matrix s)]"
  define n2 where "n2 = map (?arm b2 s1) [0..<length (cov_matrix s1)]"
  define n12 where "n12 = map (?arm (b1 @ b2) s) [0..<length (cov_matrix s)]"
  have s1: "s1 = s\<lparr>cov_matrix := map fst n1, data_vector := map (fst \<circ> snd) n1,
                    num_samples := map (snd \<circ> snd) n1,
                    eig_vals := (if use_eig then map (fst \<circ> eigh) (map fst n1) else eig_vals s),
                    eig_matrix := (if use_eig then map (snd \<circ> eigh) (map fst n1) else eig_matrix s)\<rparr>"
    using assms(1) [symmetric] ok1 by (simp add: update_def Let_def n1_def)
  have s2: "s2 = s1\<lparr>cov_matrix := map fst n2, data_vector := map (fst \<circ> snd) n2,
                    num_samples := map (snd \<circ> snd) n2,
                    eig_vals := (if use_eig then map (fst \<circ> eigh) (map fst n2) else eig_vals s1),
                    eig_matrix := (if use_eig then map (snd \<circ> eigh) (map fst n2) else eig_matrix s1)\<rparr>"
    using assms(2) [symmetric] ok2 by (simp add: update_def Let_def n2_def)
  have s12: "update d 1 eigh use_eig (b1 @ b2) s =
       Inr (s\<lparr>cov_matrix := map fst n12, data_vector := map (fst \<circ> snd) n12,
                    num_samples := map (snd \<circ> snd) n12,
                    eig_vals := (if use_eig then map (fst \<circ> eigh) (map fst n12) else eig_vals s),
                    eig_matrix := (if use_eig then map (snd \<circ> eigh) (map fst n12) else eig_matrix s)\<rparr>)"
    using ok by (simp add: update_def Let_def n12_def)
  have len: "length (cov_matrix s1) = length (cov_matrix s)"
    by (subst s1) (simp add: n1_def)
  have arm: "?arm (b1 @ b2) s k = ?arm b2 s1 k" if "k < length (cov_matrix s)" for k
  proof -
    have s1k: "(cov_matrix s1 ! k, data_vector s1 ! k, num_samples s1 ! k) = ?arm b1 s k"
      using that by (subst (1 2 3) s1) (simp add: n1_def)
    show ?thesis
      unfolding s1k batch_contexts_append batch_rewards_append
      by (rule update_arm_append [OF batch_contexts_dim [OF ok1] batch_contexts_dim [OF ok2]
            length_batch_rewards length_batch_rewards])
  qed
  have new: "n12 = n2"
    unfolding n12_def n2_def len using arm by simp
  have upd: "s1\<lparr>cov_matrix := a, data_vector := b, num_samples := c, eig_vals := e, eig_matrix := m\<rparr>
           = s\<lparr>cov_matrix := a, data_vector := b, num_samples := c, eig_vals := e, eig_matrix := m\<rparr>"
    for a b c e m
    by (subst s1) simp
  have e1: "use_eig \<or> (eig_vals s1 = eig_vals s \<and> eig_matrix s1 = eig_matrix s)"
    by (subst (1 2) s1) simp
  show ?thesis
    unfolding s12 new by (subst s2, subst upd) (use e1 in auto)
qed

text \<open>
  The update rule and the repository's test, first on the arms with a sample in the
  batch.
\<close>

lemma vadd_zeros: "length v = d \<Longrightarrow> vadd (vsmult gamma (zeros d)) v = v"
  by (simp add: vadd_def vsmult_def zeros_def list_eq_iff_nth_eq)

lemma length_srwo: "length (sum_reward_weighted_observations r X) = ncols X"
  by (simp add: srwo_eq)

lemma batch_contexts_zip:
  assumes "length obs = length act" "length act = length rew"
  shows "batch_contexts (zip obs (zip act rew)) k = map fst (filter (\<lambda>(x, a). a = k) (zip obs act))"
  using assms by (induction obs act rew rule: list_induct3) (simp_all add: batch_contexts_def)

lemma batch_rewards_zip:
  assumes "length obs = length act" "length act = length rew"
  shows "batch_rewards (zip obs (zip act rew)) k = map fst (filter (\<lambda>(x, a). a = k) (zip rew act))"
  using assms by (induction obs act rew rule: list_induct3) (simp_all add: batch_rewards_def)

lemma update_matches_test_on_sampled_arm:
  assumes upd: "update d gamma eigh use_eig (zip obs (zip act rew)) (initial_store K d) = Inr s'"
      and len: "length obs = length act" "length act = length rew"
      and k: "k < K" "k \<in> set act"
  shows "(cov_matrix s' ! k, data_vector s' ! k)
         = expected_updated_list (expected_update_with_forgetting gamma) K d obs act rew ! k"
proof -
  let ?b = "zip obs (zip act rew)"
  let ?X = "batch_contexts ?b k" and ?r = "batch_rewards ?b k"
  have ok: "\<not> list_ex (\<lambda>(c, a, r). length c \<noteq> d) ?b"
    using upd by (auto simp: update_def split: if_splits)
  have X: "?X = dynamic_partition obs act K ! k" and r: "?r = dynamic_partition rew act K ! k"
    using k(1) len by (simp_all add: batch_contexts_zip batch_rewards_zip dynamic_partition_def)
  obtain i where i: "i < length act" "act ! i = k" using k(2) by (auto simp: in_set_conv_nth)
  then have "(obs ! i, k) \<in> set (zip obs act)"
    using len by (auto simp: in_set_conv_nth)
  then have "filter (\<lambda>(x, a). a = k) (zip obs act) \<noteq> []"
    by (auto simp: filter_empty_conv)
  then have ne: "?X \<noteq> []" using len by (simp add: batch_contexts_zip)
  have nc: "ncols ?X = d" using ne batch_contexts_dim [OF ok] by (rule ncols_rows)
  have "cov_matrix s' ! k = madd (smult gamma (eye d)) (matmul (matrix_transpose ?X) ?X)"
    and "data_vector s' ! k = vadd (vsmult gamma (zeros d)) (sum_reward_weighted_observations ?r ?X)"
    using upd [symmetric] ok k(1) ne
    by (simp_all add: update_def Let_def update_arm_def initial_store_def)
  moreover have "vadd (vsmult gamma (zeros d)) (sum_reward_weighted_observations ?r ?X)
               = sum_reward_weighted_observations ?r ?X"
    by (rule vadd_zeros) (simp add: length_srwo nc)
  moreover have "0 < length ?r" using ne by (simp add: length_batch_rewards)
  ultimately show ?thesis
    using k(1) unfolding X r
    by (simp add: expected_updated_list_def expected_update_with_forgetting_def dynamic_partition_def)
qed

text \<open>The update of a sampled arm, entry by entry.\<close>

lemma dot_map_map: "dot (map f xs) (map g xs) = sum_list (map (\<lambda>x. f x * g x) xs)"
  by (induction xs) (simp_all add: dot_def)

lemma gram_is_mat:
  assumes "X \<noteq> []" "list_all (\<lambda>c. length c = d) X"
  shows "is_mat d d (matmul (matrix_transpose X) X)"
  unfolding gram_eq ncols_rows [OF assms] by (intro is_matI) simp_all

lemma gram_entry:
  assumes "X \<noteq> []" "list_all (\<lambda>c. length c = d) X" "i < d" "j < d"
  shows "matmul (matrix_transpose X) X ! i ! j = sum_list (map (\<lambda>c. c ! i * c ! j) X)"
  unfolding gram_eq ncols_rows [OF assms(1,2)] using assms(3,4)
  by (simp add: col_def dot_map_map)

lemma srwo_entry:
  assumes "F \<noteq> []" "list_all (\<lambda>(c, a, r). length c = d) F" "i < d"
  shows "sum_reward_weighted_observations (map (\<lambda>(c, a, r). r) F) (map fst F) ! i
         = sum_list (map (\<lambda>(c, a, r). r * c ! i) F)"
proof -
  have "list_all (\<lambda>c. length c = d) (map fst F)"
    using assms(2) by (auto simp: list_all_iff)
  then have n: "ncols (map fst F) = d" using assms(1) by (intro ncols_rows) simp_all
  have "dot (map (\<lambda>x. fst x ! i) F) (map (\<lambda>(c, a, r). r) F)
      = sum_list (map (\<lambda>x. fst x ! i * (case x of (c, a, r) \<Rightarrow> r)) F)"
    by (rule dot_map_map)
  also have "\<dots> = sum_list (map (\<lambda>(c, a, r). r * c ! i) F)"
    by (intro arg_cong [of _ _ sum_list] map_cong refl) (auto simp: mult.commute)
  finally show ?thesis
    using assms(3) by (simp add: srwo_eq n col_def o_def)
qed

lemma vadd_entry: "i < length u \<Longrightarrow> i < length v \<Longrightarrow> vadd u v ! i = u ! i + v ! i"
  by (simp add: vadd_def)

lemma vsmult_entry: "i < length v \<Longrightarrow> vsmult c v ! i = c * v ! i"
  by (simp add: vsmult_def)

lemma filter_dims:
  "list_all (\<lambda>(c, a, r). length c = d) batch \<Longrightarrow>
   list_all (\<lambda>(c, a, r). length c = d) (filter P batch)"
  by (auto simp: list_all_iff)

text \<open>The update of an arm without a sample in the batch.\<close>

lemma update_unsampled_result:
  assumes "update d gamma eigh use_eig batch s = Inr s'"
      and "k < length (cov_matrix s)"
      and "filter (\<lambda>(c, a, r). a = k) batch = []"
  shows "(cov_matrix s' ! k, data_vector s' ! k, num_samples s' ! k)
         = (if 0 < num_samples s ! k
            then (smult gamma (cov_matrix s ! k), vsmult gamma (data_vector s ! k), num_samples s ! k)
            else (cov_matrix s ! k, data_vector s ! k, num_samples s ! k))"
  using assms(1) [symmetric] assms(2,3)
  by (auto simp: update_def Let_def update_arm_def batch_contexts_def split: if_splits)

text \<open>
  From the initial state the update gives, for every arm, sampled or not, the
  statistics the repository's test expects; the test without forgetting is the case
  \<open>gamma = 1\<close>.
\<close>

lemma batch_contexts_unsampled:
  assumes "k \<notin> set act"
  shows "batch_contexts (zip obs (zip act rew)) k = []"
proof -
  have "a \<noteq> k" if "(c, a, r) \<in> set (zip obs (zip act rew))" for c a r
  proof -
    from that have "(a, r) \<in> set (zip act rew)" by (rule set_zip_rightD)
    then have "a \<in> set act" by (rule set_zip_leftD)
    with assms show ?thesis by auto
  qed
  then show ?thesis by (auto simp: batch_contexts_def filter_empty_conv)
qed

lemma update_matches_test:
  assumes upd: "update d gamma eigh use_eig (zip obs (zip act rew)) (initial_store K d) = Inr s'"
      and len: "length obs = length act" "length act = length rew"
      and k: "k < K"
  shows "(cov_matrix s' ! k, data_vector s' ! k)
         = expected_updated_list (expected_update_with_forgetting gamma) K d obs act rew ! k"
proof (cases "k \<in> set act")
  case True
  with upd len k show ?thesis by (rule update_matches_test_on_sampled_arm)
next
  case False
  have "batch_contexts (zip obs (zip act rew)) k = []"
    using False by (rule batch_contexts_unsampled)
  then have "(cov_matrix s' ! k, data_vector s' ! k) = (eye d, zeros d)"
    using upd [symmetric] k
    by (auto simp: update_def Let_def update_arm_def initial_store_def split: if_splits)
  also have "\<dots> = expected_updated_list (expected_update_with_forgetting gamma) K d obs act rew ! k"
    using k False
    by (simp add: expected_updated_list_def expected_update_with_forgetting_def
        dynamic_partition_def filter_zip_empty)
  finally show ?thesis .
qed

lemma expected_update_eq: "expected_update = expected_update_with_forgetting 1"
  by (simp add: fun_eq_iff expected_update_def expected_update_with_forgetting_def smult_one)

section \<open>The example policy, evaluated\<close>

lemma upt2: "[0..<2] = [0, 1]" by (simp add: upt_rec)

lemmas tensor_defs = matmul_def matrix_transpose_def ncols_def col_def dot_def
  einsum_j_jk_jk_def einsum_j_jk_k_def eye_def smult_def madd_def reshape_column_def
  tensor_diag_part_def msqrt_def is_mat_def upt2

lemma example_fields:
  "use_eigendecomp example_policy" "observation_dim example_policy = 2"
  "nat (num_actions example_policy) = 2" "tikhonov_weight example_policy = 1"
  "alpha example_policy = 1"
  "cov_matrix example_policy = [[[3, 0], [0, 3]], [[3, 0], [0, 0]]]"
  "data_vector example_policy = [[1, 1], [1, 0]]"
  "eig_vals example_policy = [[3, 3], [0, 3]]"
  "eig_matrix example_policy = [[[1, 0], [0, 1]], [[0, 1], [1, 0]]]"
  "observation example_time_step = [[2, 0], [0, 2]]"
  by (simp_all add: example_policy_def example_time_step_def)

lemma example_transpose: "matrix_transpose [[2, 0], [0, 2]] = [[2, 0], [0, 2::real]]"
  by (simp add: tensor_defs)

lemma example_eig_cache_valid: "eig_cache_valid example_policy"
  unfolding eig_cache_valid_def example_fields upt2
  by (simp add: is_eigendecomposition_def tensor_defs)

lemma example_exact_solve:
  "list_all (\<lambda>k. exact_solve diag_solve (observation_dim example_policy) 2
       (madd (cov_matrix example_policy ! k)
          (smult (tikhonov_weight example_policy) (eye (observation_dim example_policy))))
       (matrix_transpose (observation example_time_step))) [0..<nat (num_actions example_policy)]"
  unfolding example_fields upt2 example_transpose
  by (simp add: exact_solve_def diag_solve_def tensor_defs)

lemma example_solve_arm:
  "solve_arm cg example_policy [[2, 0], [0, 2]] 0 = Inr [[1/2, 0], [0, 1/2]]"
  "solve_arm cg example_policy [[2, 0], [0, 2]] 1 = Inr [[1/2, 0], [0, 2]]"
  by (simp_all add: solve_arm_def example_fields example_transpose)
    (simp_all add: tensor_defs)

lemma example_p_value:
  "p_value cg example_policy [[2, 0], [0, 2]] 0 = Inr [[3/2], [3/2]]"
  "p_value cg example_policy [[2, 0], [0, 2]] 1 = Inr [[3/2], [2]]"
  unfolding p_value_def example_solve_arm
  by (simp_all add: example_fields tensor_defs)

lemma example_distribution:
  "distribution cg example_policy example_time_step ()
     = (Inr \<lparr>action = [0, 1], state = ()\<rparr>, example_policy)"
proof -
  have "p_values_loop cg example_policy [[2, 0], [0, 2]] [0, 1] = Inr [[[3/2], [3/2]], [[3/2], [2]]]"
    unfolding p_values_loop.simps example_p_value by simp
  then show ?thesis
    by (simp add: distribution_def example_fields squeeze_stack_def upt2)
qed

section \<open>The update rule\<close>

text \<open>
  C1, as the update has it. For an arm \<open>k\<close> that receives no sample of the batch, the
  update returns and adds no reward contribution: the sample count is unchanged; when
  the arm was sampled before, its covariance matrix becomes \<open>gamma * cov_matrix[k]\<close> and
  its data vector \<open>gamma * data_vector[k]\<close>, entry by entry; when the arm was never
  sampled, its statistics stay as they are, so from the initial state the covariance
  matrix stays the identity and is not scaled by \<open>gamma\<close>.
\<close>

theorem unsampled_arm_update:
  assumes dims: "list_all (\<lambda>(c, a, r). length c = d) batch"
      and k: "k < length (cov_matrix s)"
      and cov: "is_mat d d (cov_matrix s ! k)"
      and dat: "length (data_vector s ! k) = d"
      and n: "filter (\<lambda>(c, a, r). a = k) batch = []"
  shows "\<exists>s'. update d gamma eigh use_eig batch s = Inr s' \<and>
           num_samples s' ! k = num_samples s ! k \<and>
           (0 < num_samples s ! k \<longrightarrow>
              cov_matrix s' ! k = smult gamma (cov_matrix s ! k) \<and>
              data_vector s' ! k = vsmult gamma (data_vector s ! k) \<and>
              (\<forall>i < d. \<forall>j < d. cov_matrix s' ! k ! i ! j = gamma * cov_matrix s ! k ! i ! j) \<and>
              (\<forall>i < d. data_vector s' ! k ! i = gamma * data_vector s ! k ! i)) \<and>
           (\<not> 0 < num_samples s ! k \<longrightarrow>
              cov_matrix s' ! k = cov_matrix s ! k \<and> data_vector s' ! k = data_vector s ! k)"
proof -
  from update_returns [OF dims] obtain s' where
    upd: "update d gamma eigh use_eig batch s = Inr s'" by blast
  note res = update_unsampled_result [OF upd k n]
  have "num_samples s' ! k = num_samples s ! k" using res by (simp split: if_splits)
  moreover have "cov_matrix s' ! k = smult gamma (cov_matrix s ! k) \<and>
              data_vector s' ! k = vsmult gamma (data_vector s ! k) \<and>
              (\<forall>i < d. \<forall>j < d. cov_matrix s' ! k ! i ! j = gamma * cov_matrix s ! k ! i ! j) \<and>
              (\<forall>i < d. data_vector s' ! k ! i = gamma * data_vector s ! k ! i)"
    if "0 < num_samples s ! k"
    using res that dat by (simp add: smult_entry [OF cov] vsmult_entry)
  moreover have "cov_matrix s' ! k = cov_matrix s ! k \<and> data_vector s' ! k = data_vector s ! k"
    if "\<not> 0 < num_samples s ! k"
    using res that by simp
  ultimately show ?thesis using upd by blast
qed

theorem unsampled_arm_update_witness:
  "(\<exists>s'. update 2 (1/2) no_eigh False [([5, 5], 1, 7), ([1, 1], 1, 2)] example_store = Inr s' \<and>
        cov_matrix s' ! 0 = [[1, 1/2], [1/2, 3/2]] \<and> data_vector s' ! 0 = [2, 1] \<and>
        num_samples s' ! 0 = 3) \<and>
   (\<exists>s'. update 2 (1/2) no_eigh False [([5, 5], 1, 7), ([1, 1], 1, 2)] example_store = Inr s' \<and>
        cov_matrix s' ! 2 = [[1, 0], [0, 1]] \<and> data_vector s' ! 2 = [0, 0] \<and>
        num_samples s' ! 2 = 0)"
proof -
  have b: "list_all (\<lambda>(c, a, r). length c = 2) [([5, 5], 1::nat, 7::real), ([1, 1], 1, 2)]"
    by simp
  have "\<exists>s'. update 2 (1/2) no_eigh False [([5, 5], 1, 7), ([1, 1], 1, 2)] example_store = Inr s' \<and>
        cov_matrix s' ! 0 = [[1, 1/2], [1/2, 3/2]] \<and> data_vector s' ! 0 = [2, 1] \<and>
        num_samples s' ! 0 = 3"
    using unsampled_arm_update [OF b, of 0 example_store "1/2" no_eigh False]
    by (auto simp: example_store_def is_mat_def smult_def vsmult_def)
  moreover have "\<exists>s'. update 2 (1/2) no_eigh False [([5, 5], 1, 7), ([1, 1], 1, 2)] example_store = Inr s' \<and>
        cov_matrix s' ! 2 = [[1, 0], [0, 1]] \<and> data_vector s' ! 2 = [0, 0] \<and>
        num_samples s' ! 2 = 0"
    using unsampled_arm_update [OF b, of 2 example_store "1/2" no_eigh False]
    by (auto simp: example_store_def is_mat_def)
  ultimately show ?thesis by blast
qed

text \<open>
  C1 as stated fails: from the initial state with \<open>gamma = 0.9\<close>, two arms and one sample
  for arm 0, the covariance matrix of arm 1 after the update is the identity, which
  differs from \<open>gamma\<close> times the covariance matrix before. This is the case the
  repository's test pins (\<open>update_matches_test\<close>).
\<close>

theorem never_sampled_arm_not_scaled_by_gamma:
  "update 1 (9/10) no_eigh False [([1], 0, 1/2)] (initial_store 2 1)
     = Inr \<lparr>cov_matrix = [[[19/10]], [[1]]], data_vector = [[1/2], [0]],
            num_samples = [1, 0], eig_vals = [], eig_matrix = []\<rparr> \<and>
   smult (9/10) (cov_matrix (initial_store 2 1) ! 1) = [[9/10]] \<and>
   [[1::real]] \<noteq> [[9/10]]"
  by (simp add: update_def initial_store_def update_arm_def batch_contexts_def batch_rewards_def
      sum_reward_weighted_observations_def vadd_def vsmult_def zeros_def tensor_defs
      numeral_2_eq_2)

text \<open>
  C2. For every arm \<open>k\<close> with at least one sample in the batch, one update step returns
  and sets the covariance matrix to \<open>gamma * cov_matrix[k] + X\<^sub>k\<^sup>T X\<^sub>k\<close> and the data vector
  to \<open>gamma * data_vector[k] + X\<^sub>k\<^sup>T r\<^sub>k\<close>, where \<open>X\<^sub>k\<close> and \<open>r\<^sub>k\<close> are the contexts and
  rewards of the batch entries whose action is \<open>k\<close>; the sample count grows by their
  number. Entry by entry: entry \<open>(i, j)\<close> of the new covariance matrix is \<open>gamma\<close> times
  the old entry plus the sum of \<open>c[i] * c[j]\<close> over the entries \<open>(c, a, r)\<close> of the batch
  with \<open>a = k\<close>, and entry \<open>i\<close> of the new data vector is \<open>gamma\<close> times the old entry plus
  the sum of \<open>r * c[i]\<close> over those entries. The arm's statistics have dimension \<open>d\<close>.
\<close>

theorem update_sampled_arm:
  assumes dims: "list_all (\<lambda>(c, a, r). length c = d) batch"
      and k: "k < length (cov_matrix s)"
      and cov: "is_mat d d (cov_matrix s ! k)"
      and dat: "length (data_vector s ! k) = d"
      and n: "0 < length (filter (\<lambda>(c, a, r). a = k) batch)"
      and X: "X = map fst (filter (\<lambda>(c, a, r). a = k) batch)"
      and r: "r = map (\<lambda>(c, a, r). r) (filter (\<lambda>(c, a, r). a = k) batch)"
  shows "\<exists>s'. update d gamma eigh use_eig batch s = Inr s' \<and>
           cov_matrix s' ! k = madd (smult gamma (cov_matrix s ! k)) (matmul (matrix_transpose X) X) \<and>
           data_vector s' ! k
             = vadd (vsmult gamma (data_vector s ! k)) (map (\<lambda>c. dot c r) (matrix_transpose X)) \<and>
           num_samples s' ! k = num_samples s ! k + real (length X) \<and>
           is_mat d d (cov_matrix s' ! k) \<and> length (data_vector s' ! k) = d \<and>
           (\<forall>i < d. \<forall>j < d.
              cov_matrix s' ! k ! i ! j
                = gamma * cov_matrix s ! k ! i ! j
                  + sum_list (map (\<lambda>(c, a, r). if a = k then c ! i * c ! j else 0) batch)) \<and>
           (\<forall>i < d.
              data_vector s' ! k ! i
                = gamma * data_vector s ! k ! i
                  + sum_list (map (\<lambda>(c, a, r). if a = k then r * c ! i else 0) batch))"
proof -
  let ?F = "filter (\<lambda>(c, a, r). a = k) batch"
  have Xb: "X = batch_contexts batch k" and rb: "r = batch_rewards batch k"
    by (simp_all add: X r batch_contexts_def batch_rewards_def)
  have nX: "0 < length (batch_contexts batch k)" using n by (simp add: batch_contexts_def)
  from update_returns [OF dims] obtain s' where
    upd: "update d gamma eigh use_eig batch s = Inr s'" by blast
  from update_arm_result [OF upd k nX]
  have c': "cov_matrix s' ! k = madd (smult gamma (cov_matrix s ! k)) (matmul (matrix_transpose X) X)"
    and d': "data_vector s' ! k
             = vadd (vsmult gamma (data_vector s ! k)) (map (\<lambda>c. dot c r) (matrix_transpose X))"
    and n': "num_samples s' ! k = num_samples s ! k + real (length X)"
    by (simp_all add: Xb rb)
  have Fne: "?F \<noteq> []" using n by auto
  have Fd: "list_all (\<lambda>(c, a, r). length c = d) ?F" using dims by (rule filter_dims)
  have Xne: "X \<noteq> []" using Fne by (simp add: X)
  have Xd: "list_all (\<lambda>c. length c = d) X" using Fd by (auto simp: X list_all_iff)
  have G: "is_mat d d (matmul (matrix_transpose X) X)" using Xne Xd by (rule gram_is_mat)
  have gc: "is_mat d d (smult gamma (cov_matrix s ! k))" using cov by (rule smult_is_mat)
  have shape: "is_mat d d (cov_matrix s' ! k)" unfolding c' using gc G by (rule madd_is_mat)
  have sr: "map (\<lambda>c. dot c r) (matrix_transpose X) = sum_reward_weighted_observations r X"
    by (simp add: sum_reward_weighted_observations_def)
  have ls: "length (sum_reward_weighted_observations r X) = d"
    using ncols_rows [OF Xne Xd] by (simp add: length_srwo)
  have ld: "length (data_vector s' ! k) = d"
    unfolding d' sr using dat ls by (simp add: vadd_def vsmult_def)
  have ce: "cov_matrix s' ! k ! i ! j
                = gamma * cov_matrix s ! k ! i ! j
                  + sum_list (map (\<lambda>(c, a, r). if a = k then c ! i * c ! j else 0) batch)"
    if "i < d" "j < d" for i j
  proof -
    have "sum_list (map (\<lambda>c. c ! i * c ! j) X)
        = sum_list (map (\<lambda>(c, a, r). c ! i * c ! j) ?F)"
      unfolding X by (simp add: o_def case_prod_unfold)
    also have "\<dots> = sum_list (map (\<lambda>x. if (case x of (c, a, r) \<Rightarrow> a = k)
                                          then (case x of (c, a, r) \<Rightarrow> c ! i * c ! j) else 0) batch)"
      by (rule sum_list_map_filter')
    also have "\<dots> = sum_list (map (\<lambda>(c, a, r). if a = k then c ! i * c ! j else 0) batch)"
      by (intro arg_cong [of _ _ sum_list] map_cong refl) auto
    finally show ?thesis
      unfolding c' using that
      by (simp add: madd_entry [OF gc G] smult_entry [OF cov] gram_entry [OF Xne Xd])
  qed
  have de: "data_vector s' ! k ! i
                = gamma * data_vector s ! k ! i
                  + sum_list (map (\<lambda>(c, a, r). if a = k then r * c ! i else 0) batch)"
    if "i < d" for i
  proof -
    have "sum_reward_weighted_observations r X ! i = sum_list (map (\<lambda>(c, a, r). r * c ! i) ?F)"
      unfolding X r using Fne Fd that by (rule srwo_entry)
    also have "\<dots> = sum_list (map (\<lambda>x. if (case x of (c, a, r) \<Rightarrow> a = k)
                                          then (case x of (c, a, r) \<Rightarrow> r * c ! i) else 0) batch)"
      by (rule sum_list_map_filter')
    also have "\<dots> = sum_list (map (\<lambda>(c, a, r). if a = k then r * c ! i else 0) batch)"
      by (intro arg_cong [of _ _ sum_list] map_cong refl) auto
    finally have e: "sum_reward_weighted_observations r X ! i
        = sum_list (map (\<lambda>(c, a, r). if a = k then r * c ! i else 0) batch)" .
    have "vadd (vsmult gamma (data_vector s ! k)) (sum_reward_weighted_observations r X) ! i
        = gamma * data_vector s ! k ! i + sum_reward_weighted_observations r X ! i"
      using that dat ls by (simp add: vadd_def vsmult_def)
    then show ?thesis unfolding d' sr e .
  qed
  from upd c' d' n' shape ld ce de show ?thesis by blast
qed

theorem update_sampled_arm_witness:
  "\<exists>s'. update 2 (1/2) no_eigh False [([1, 2], 0, 3), ([5, 5], 1, 7), ([2, 0], 0, 1)] example_store
          = Inr s' \<and>
        cov_matrix s' ! 0 = [[6, 5/2], [5/2, 11/2]] \<and> data_vector s' ! 0 = [7, 7] \<and>
        num_samples s' ! 0 = 5 \<and>
        cov_matrix s' ! 0 ! 0 ! 1 = 1/2 * 1 + (1 * 2 + 0 + 2 * 0)"
proof -
  let ?b = "[([1, 2], 0::nat, 3::real), ([5, 5], 1, 7), ([2, 0], 0, 1)]"
  have "list_all (\<lambda>(c, a, r). length c = 2) ?b" by simp
  from update_sampled_arm [OF this, of 0 example_store "[[1, 2], [2, 0]]" "[3, 1]" "1/2" no_eigh False]
  obtain s' where "update 2 (1/2) no_eigh False ?b example_store = Inr s'"
    "cov_matrix s' ! 0 = madd (smult (1/2) (cov_matrix example_store ! 0))
                            (matmul (matrix_transpose [[1, 2], [2, 0]]) [[1, 2], [2, 0]])"
    "data_vector s' ! 0 = vadd (vsmult (1/2) (data_vector example_store ! 0))
                            (map (\<lambda>c. dot c [3, 1]) (matrix_transpose [[1, 2], [2, 0]]))"
    "num_samples s' ! 0 = num_samples example_store ! 0 + real (length [[1, 2], [2, 0::real]])"
    "cov_matrix s' ! 0 ! 0 ! 1
       = 1/2 * cov_matrix example_store ! 0 ! 0 ! 1
         + sum_list (map (\<lambda>(c, a, r). if a = 0 then c ! 0 * c ! 1 else 0) ?b)"
    by (auto simp: example_store_def is_mat_def)
  moreover from this(2-5) have "cov_matrix s' ! 0 = [[6, 5/2], [5/2, 11/2]]"
    "data_vector s' ! 0 = [7, 7]" "num_samples s' ! 0 = 5"
    "cov_matrix s' ! 0 ! 0 ! 1 = 1/2 * 1 + (1 * 2 + 0 + 2 * 0)"
    by (simp_all add: example_store_def vadd_def vsmult_def tensor_defs)
  ultimately show ?thesis by blast
qed

text \<open>
  C9. With \<open>gamma = 1\<close> the update is batch-additive: when two batches are applied one
  after the other, the store reached is the one a single update with their
  concatenation reaches, so the covariance matrix, the data vector and the sample count
  of every arm agree. Two single-sample batches are a special case.
\<close>

theorem update_batch_additive:
  assumes "list_all (\<lambda>(c, a, r). length c = d) b1"
      and "list_all (\<lambda>(c, a, r). length c = d) b2"
  shows "\<exists>s1 s2. update d 1 eigh use_eig b1 s = Inr s1 \<and>
           update d 1 eigh use_eig b2 s1 = Inr s2 \<and>
           update d 1 eigh use_eig (b1 @ b2) s = Inr s2"
proof -
  from update_returns [OF assms(1)] obtain s1 where
    s1: "update d 1 eigh use_eig b1 s = Inr s1" by blast
  from update_returns [OF assms(2)] obtain s2 where
    s2: "update d 1 eigh use_eig b2 s1 = Inr s2" by blast
  from s1 s2 update_append [OF s1 s2] show ?thesis by blast
qed

lemma example_update_sequence:
  "update 2 1 no_eigh False [([1, 2], 0, 3)] (initial_store 2 2)
     = Inr \<lparr>cov_matrix = [[[2, 2], [2, 5]], [[1, 0], [0, 1]]],
            data_vector = [[3, 6], [0, 0]], num_samples = [1, 0],
            eig_vals = [], eig_matrix = []\<rparr>"
  "update 2 1 no_eigh False [([2, 0], 0, 1)]
       \<lparr>cov_matrix = [[[2, 2], [2, 5]], [[1, 0], [0, 1]]],
        data_vector = [[3, 6], [0, 0]], num_samples = [1, 0],
        eig_vals = [], eig_matrix = []\<rparr>
     = Inr \<lparr>cov_matrix = [[[6, 2], [2, 5]], [[1, 0], [0, 1]]],
            data_vector = [[5, 6], [0, 0]], num_samples = [2, 0],
            eig_vals = [], eig_matrix = []\<rparr>"
  by (simp_all add: update_def initial_store_def update_arm_def batch_contexts_def
      batch_rewards_def sum_reward_weighted_observations_def vadd_def vsmult_def zeros_def
      tensor_defs numeral_2_eq_2)

theorem update_batch_additive_witness:
  "update 2 1 no_eigh False ([([1, 2], 0, 3)] @ [([2, 0], 0, 1)]) (initial_store 2 2)
     = Inr \<lparr>cov_matrix = [[[6, 2], [2, 5]], [[1, 0], [0, 1]]],
            data_vector = [[5, 6], [0, 0]], num_samples = [2, 0],
            eig_vals = [], eig_matrix = []\<rparr>"
proof -
  have "list_all (\<lambda>(c, a, r). length c = 2) [([1, 2], 0::nat, 3::real)]"
    and "list_all (\<lambda>(c, a, r). length c = 2) [([2, 0], 0::nat, 1::real)]"
    by simp_all
  from update_batch_additive [OF this, of no_eigh False "initial_store 2 2"]
  show ?thesis by (auto simp: example_update_sequence)
qed

section \<open>Scoring and selection\<close>

text \<open>
  C3. Given the same statistics, selection through the direct solve of
  \<open>(cov_matrix[k] + tikhonov_weight * I) x = context\<^sup>T\<close> and selection through the cached
  eigendecomposition \<open>x = V diag(1 / (\<lambda> + tikhonov_weight)) V\<^sup>T context\<^sup>T\<close> have equal solve
  results for every arm, hence equal per-arm scores and equal chosen actions. The
  statistics are consistent (the cache is the eigendecomposition of the covariance
  matrices and no regularised eigenvalue is zero), the batch has \<open>B > 0\<close> contexts of
  the policy's dimension \<open>d > 0\<close>, and the direct solver returns a solution of each system.
\<close>

theorem eigendecomp_solve_equals_direct_solve:
  fixes p :: "'a LinearUCBPolicy_scheme"
  assumes eig: "use_eigendecomp p"
      and valid: "eig_cache_valid p"
      and d: "0 < observation_dim p"
      and obs: "is_mat B (observation_dim p) (observation ts)" and B: "0 < B"
      and solver: "list_all (\<lambda>k. exact_solve cg (observation_dim p) B
                     (madd (cov_matrix p ! k) (smult (tikhonov_weight p) (eye (observation_dim p))))
                     (matrix_transpose (observation ts))) [0..<nat (num_actions p)]"
  shows "(\<forall>k < nat (num_actions p).
            solve_arm cg (direct_solve_policy p) (observation ts) k
              = solve_arm cg p (observation ts) k \<and>
            p_value cg (direct_solve_policy p) (observation ts) k
              = p_value cg p (observation ts) k) \<and>
         fst (distribution cg (direct_solve_policy p) ts ps) = fst (distribution cg p ts ps)"
proof -
  let ?q = "direct_solve_policy p" and ?obs = "observation ts" and ?d = "observation_dim p"
  let ?K = "nat (num_actions p)"
  have solve: "solve_arm cg ?q ?obs k = solve_arm cg p ?obs k" if k: "k < ?K" for k
    using eig valid d obs B solver k by (rule solve_arm_direct_eq)
  have pv: "p_value cg ?q ?obs k = p_value cg p ?obs k" if k: "k < ?K" for k
  proof -
    have dq: "data_vector ?q = data_vector p" "alpha ?q = alpha p"
      by (simp_all add: direct_solve_policy_def)
    show ?thesis
      unfolding p_value_def solve [OF k] dq ..
  qed
  have "p_values_loop cg ?q ?obs [0..<?K] = p_values_loop cg p ?obs [0..<?K]"
    by (rule p_values_loop_cong) (simp add: pv)
  moreover have "observation_dim ?q = observation_dim p" "data_vector ?q = data_vector p"
    "num_actions ?q = num_actions p"
    by (simp_all add: direct_solve_policy_def)
  ultimately have "fst (distribution cg ?q ts ps) = fst (distribution cg p ts ps)"
    by (simp add: distribution_def split: sum.splits list.splits)
  with solve pv show ?thesis by simp
qed

theorem eigendecomp_solve_equals_direct_solve_witness:
  "eig_cache_valid example_policy \<and>
   fst (distribution diag_solve (direct_solve_policy example_policy) example_time_step ())
     = fst (distribution diag_solve example_policy example_time_step ()) \<and>
   fst (distribution diag_solve (direct_solve_policy example_policy) example_time_step ())
     = Inr \<lparr>action = [0, 1], state = ()\<rparr>"
proof -
  have "is_mat 2 (observation_dim example_policy) (observation example_time_step)"
    by (simp add: example_fields is_mat_def)
  from eigendecomp_solve_equals_direct_solve
    [OF example_fields(1) example_eig_cache_valid _ this _ example_exact_solve, of "()"]
  have "fst (distribution diag_solve (direct_solve_policy example_policy) example_time_step ())
     = fst (distribution diag_solve example_policy example_time_step ())"
    by (simp add: example_fields)
  then show ?thesis
    using example_eig_cache_valid example_distribution [of diag_solve] by simp
qed

text \<open>
  C4. For arm \<open>k\<close> and context \<open>b\<close> of the batch, with \<open>x\<close> the solve result for that
  context (column \<open>b\<close> of \<^verbatim>\<open>a_inv_x\<close>), the score the loop appends is
  \<open>data_vector[k]\<^sup>T x + alpha * sqrt(context\<^sup>T x)\<close>; the point estimate is
  \<open>data_vector[k]\<^sup>T x\<close> and the confidence width is \<open>sqrt(context\<^sup>T x)\<close>. The solve result
  has one column per context.
\<close>

theorem score_is_estimate_plus_scaled_width:
  assumes "solve_arm cg p obs k = Inr a_inv_x"
      and "k < length (data_vector p)"
      and "b < length obs"
      and "ncols a_inv_x = length obs"
  shows "\<exists>pv. p_value cg p obs k = Inr pv \<and> length pv = length obs \<and>
           pv ! b = [dot (data_vector p ! k) (col a_inv_x b)
                     + alpha p * sqrt (dot (obs ! b) (col a_inv_x b))] \<and>
           pv ! b = [spec_score p k (obs ! b) (col a_inv_x b)] \<and>
           einsum_j_jk_k (data_vector p ! k) a_inv_x ! b
             = dot (data_vector p ! k) (col a_inv_x b) \<and>
           msqrt (reshape_column (tensor_diag_part (matmul obs a_inv_x))) ! b
             = [sqrt (dot (obs ! b) (col a_inv_x b))]"
proof -
  have b: "b < ncols a_inv_x" using assms by simp
  have "einsum_j_jk_k (data_vector p ! k) a_inv_x ! b = dot (data_vector p ! k) (col a_inv_x b)"
    using b by (rule einsum_j_jk_k_nth)
  moreover have "msqrt (reshape_column (tensor_diag_part (matmul obs a_inv_x))) ! b
             = [sqrt (dot (obs ! b) (col a_inv_x b))]"
    using assms(3) b
    by (simp add: msqrt_def reshape_column_def tensor_diag_part_def matmul_def)
  ultimately show ?thesis
    using p_value_entry [OF assms] by (auto simp: spec_score_def)
qed

theorem score_is_estimate_plus_scaled_width_witness:
  "solve_arm diag_solve example_policy [[2, 0], [0, 2]] 1 = Inr [[1/2, 0], [0, 2]] \<and>
   (\<exists>pv. p_value diag_solve example_policy [[2, 0], [0, 2]] 1 = Inr pv \<and> pv ! 1 = [2])"
proof -
  have "\<exists>pv. p_value diag_solve example_policy [[2, 0], [0, 2]] 1 = Inr pv \<and>
          pv ! 1 = [dot (data_vector example_policy ! 1) (col [[1/2, 0], [0, 2]] 1)
                     + alpha example_policy * sqrt (dot ([[2, 0], [0, 2]] ! 1) (col [[1/2, 0], [0, 2]] 1))]"
    using score_is_estimate_plus_scaled_width
      [OF example_solve_arm(2) [of diag_solve], of 1]
    by (auto simp: example_fields ncols_def)
  then show ?thesis
    using example_solve_arm(2) [of diag_solve]
    by (simp add: example_fields dot_def col_def)
qed

text \<open>
  C5. The policy returns one action per context. The action for context \<open>b\<close> is the
  arm with the highest score among the scores of that context alone (each computed from
  the context and the solve result for it): no arm scores higher, and every arm with a
  smaller index scores strictly lower, so among tied arms the lowest index is chosen.
  No other context of the batch takes part: when the solves work context by context,
  as the cached solve does (\<open>eig_solves_contextwise\<close>), the policy run on context \<open>b\<close>
  alone returns the same action.
\<close>

theorem chosen_action_is_first_argmax:
  assumes "distribution cg p ts ps = (Inr step, p')"
      and "\<And>k. k < nat (num_actions p) \<Longrightarrow> solve_arm cg p (observation ts) k = Inr (X k)"
      and "\<And>k. k < nat (num_actions p) \<Longrightarrow> ncols (X k) = length (observation ts)"
      and "b < length (observation ts)"
      and "row = map (\<lambda>k. spec_score p k (observation ts ! b) (col (X k) b))
                   [0..<nat (num_actions p)]"
  shows "length (action step) = length (observation ts) \<and>
         action step ! b = int (argmax row) \<and>
         argmax row < nat (num_actions p) \<and>
         (\<forall>k < nat (num_actions p). row ! k \<le> row ! argmax row) \<and>
         (\<forall>k < argmax row. row ! k < row ! argmax row) \<and>
         (solves_contextwise cg p (observation ts) b \<longrightarrow>
            distribution cg p (ts\<lparr>observation := [observation ts ! b]\<rparr>) ps
              = (Inr \<lparr>action = [action step ! b], state = ps\<rparr>, p))"
proof -
  let ?K = "nat (num_actions p)" and ?obs = "observation ts"
  from distribution_Inr [OF assms(1)] obtain pvs where
    loop: "p_values_loop cg p ?obs [0..<?K] = Inr pvs" and ne: "pvs \<noteq> []" and
    act: "action step = map (\<lambda>row. int (argmax row)) (squeeze_stack pvs)" by blast
  from p_values_loop_Inr [OF loop]
  have len: "length pvs = ?K" and pv: "\<And>k. k < ?K \<Longrightarrow> p_value cg p ?obs k = Inr (pvs ! k)"
    by auto
  from ne len have K: "0 < ?K" by (cases pvs) auto
  have ent: "length (pvs ! k) = length ?obs \<and>
       pvs ! k ! b = [spec_score p k (?obs ! b) (col (X k) b)]" if "k < ?K" for k
    using p_value_entry [OF assms(2) p_value_data_vector [OF pv] assms(4) assms(3), OF that that that]
      pv [OF that]
    by (auto simp: spec_score_def)
  have lenact: "length (action step) = length ?obs"
    using ent [OF K] by (simp add: act squeeze_stack_def)
  have "squeeze_stack pvs ! b = map (\<lambda>pv. pv ! b ! 0) pvs"
    using ent [OF K] assms(4) by (simp add: squeeze_stack_def)
  also have "\<dots> = row"
    unfolding assms(5) using ent len by (auto simp: list_eq_iff_nth_eq)
  finally have rowb: "squeeze_stack pvs ! b = row" .
  have "b < length (squeeze_stack pvs)"
    using ent [OF K] assms(4) by (simp add: squeeze_stack_def)
  then have "action step ! b = int (argmax row)"
    by (simp add: act rowb)
  moreover have rl: "length row = ?K" by (simp add: assms(5))
  then have "row \<noteq> []" using K by auto
  then have "argmax row < ?K" using argmax_less [of row] rl by simp
  moreover have "\<forall>k < ?K. row ! k \<le> row ! argmax row"
    using argmax_ge [of _ row] rl by simp
  moreover have "\<forall>k < argmax row. row ! k < row ! argmax row"
    using argmax_first [of _ row] by simp
  moreover have "distribution cg p (ts\<lparr>observation := [observation ts ! b]\<rparr>) ps
              = (Inr \<lparr>action = [int (argmax row)], state = ps\<rparr>, p)"
    if "solves_contextwise cg p (observation ts) b"
    using assms(1,2,4) that assms(5) by (rule single_context_action)
  ultimately show ?thesis using lenact by simp
qed

theorem chosen_action_is_first_argmax_witness:
  "distribution diag_solve example_policy example_time_step ()
     = (Inr \<lparr>action = [0, 1], state = ()\<rparr>, example_policy) \<and>
   map (\<lambda>k. spec_score example_policy k (observation example_time_step ! 0)
              (col (if k = 0 then [[1/2, 0], [0, 1/2]] else [[1/2, 0], [0, 2]]) 0))
       [0..<nat (num_actions example_policy)] = [3/2, 3/2] \<and>
   action \<lparr>action = [0, 1], state = ()\<rparr> ! 0 = int (argmax [3/2, 3/2]) \<and>
   argmax [3/2, 3/2] = 0 \<and>
   solves_contextwise diag_solve example_policy (observation example_time_step) 0 \<and>
   distribution diag_solve example_policy
       (example_time_step\<lparr>observation := [observation example_time_step ! 0]\<rparr>) ()
     = (Inr \<lparr>action = [0], state = ()\<rparr>, example_policy)"
proof -
  let ?X = "\<lambda>k::nat. if k = 0 then [[1/2, 0], [0, 1/2]] else [[1/2, 0], [0, 2::real]]"
  have row: "map (\<lambda>k. spec_score example_policy k (observation example_time_step ! 0) (col (?X k) 0))
       [0..<nat (num_actions example_policy)] = [3/2, 3/2]"
    by (simp add: example_fields upt2 spec_score_def dot_def col_def)
  have solve: "solve_arm diag_solve example_policy (observation example_time_step) k = Inr (?X k)"
    if "k < nat (num_actions example_policy)" for k
    using that example_solve_arm [of diag_solve]
    by (auto simp: example_fields less_Suc_eq numeral_2_eq_2)
  have cols: "ncols (?X k) = length (observation example_time_step)" for k
    by (simp add: example_fields ncols_def)
  have cw: "solves_contextwise diag_solve example_policy (observation example_time_step) 0"
    by (rule eig_solves_contextwise [OF example_fields(1) example_eig_cache_valid])
      (simp_all add: example_fields)
  have "action \<lparr>action = [0, 1], state = ()\<rparr> ! 0 = int (argmax [3/2, 3/2]) \<and>
        distribution diag_solve example_policy
            (example_time_step\<lparr>observation := [observation example_time_step ! 0]\<rparr>) ()
          = (Inr \<lparr>action = [action \<lparr>action = [0, 1], state = ()\<rparr> ! 0], state = ()\<rparr>,
             example_policy)"
    using chosen_action_is_first_argmax
      [OF example_distribution [of diag_solve] solve cols _ row [symmetric]] cw
    by (simp add: example_fields)
  moreover have "argmax [3/2, 3/2] = 0" by simp
  ultimately show ?thesis using example_distribution [of diag_solve] row cw by simp
qed

text \<open>
  C6. Action selection does not change the policy's statistics: after
  \<^verbatim>\<open>_distribution\<close>, whether it returned or raised, the covariance matrices, data
  vectors, sample counts and cached eigendecompositions are the ones before the call.
\<close>

theorem distribution_leaves_statistics_unchanged:
  "snd (distribution cg p ts ps) = p \<and>
   cov_matrix (snd (distribution cg p ts ps)) = cov_matrix p \<and>
   data_vector (snd (distribution cg p ts ps)) = data_vector p \<and>
   num_samples (snd (distribution cg p ts ps)) = num_samples p \<and>
   eig_vals (snd (distribution cg p ts ps)) = eig_vals p \<and>
   eig_matrix (snd (distribution cg p ts ps)) = eig_matrix p"
proof -
  have "snd (distribution cg p ts ps) = p"
    by (simp add: distribution_def split: sum.splits list.splits)
  then show ?thesis by simp
qed

theorem distribution_leaves_statistics_unchanged_witness:
  "snd (distribution diag_solve example_policy example_time_step ()) = example_policy \<and>
   fst (distribution diag_solve example_policy example_time_step ())
     = Inr \<lparr>action = [0, 1], state = ()\<rparr>"
  using distribution_leaves_statistics_unchanged
    [of diag_solve example_policy example_time_step "()"]
    example_distribution [of diag_solve]
  by simp

section \<open>Construction\<close>

text \<open>
  C7, as the constructor has it. When the number of covariance matrices differs from
  the action specification's \<open>maximum + 1\<close>, construction fails with a \<open>ValueError\<close>.
  The converse does not hold: construction succeeds exactly when, besides that
  equality, the data vectors and sample counts are as many as the covariance matrices,
  a time-step specification with a first observation dimension is given, and that
  dimension is the first dimension of the first covariance matrix and of the first
  data vector.
\<close>

theorem init_checks:
  "(int (length cov) \<noteq> maximum aspec + 1 \<longrightarrow>
      (\<exists>msg. init (Spec aspec) (Seq cov) dat_a num_a tss al ev_a em_a tw
                = Inl (ValueError msg))) \<and>
   ((\<exists>p. init (Spec aspec) (Seq cov) (Seq dat) (Seq num) tss al (Seq ev) (Seq em) tw = Inr p)
      \<longleftrightarrow>
      length cov = length dat \<and> length num = length cov \<and>
      int (length cov) = maximum aspec + 1 \<and>
      (\<exists>obs_dim rest cov0 covs dat0 dats. tss = Some (obs_dim # rest) \<and> cov = cov0 # covs \<and>
         dat = dat0 # dats \<and> obs_dim = length cov0 \<and> obs_dim = length dat0))"
  by (auto simp: init_def split: pyarg.splits option.splits list.splits)

theorem init_checks_witness:
  "int (length [[[1::real]], [[1]]])
     \<noteq> maximum \<lparr>spec_shape = [], spec_dtype = int32, minimum = 0, maximum = 0\<rparr> + 1 \<and>
   (\<exists>msg. init (Spec \<lparr>spec_shape = [], spec_dtype = int32, minimum = 0, maximum = 0\<rparr>)
        (Seq [[[1]], [[1]]]) (Seq [[0], [0]]) (Seq [0, 0]) (Some [1]) 1 (Seq []) (Seq []) 1
      = Inl (ValueError msg)) \<and>
   (\<exists>p. init (Spec \<lparr>spec_shape = [], spec_dtype = int32, minimum = 0, maximum = 0\<rparr>)
        (Seq [[[1]]]) (Seq [[0]]) (Seq [0]) (Some [1]) 1 (Seq []) (Seq []) 1 = Inr p)"
proof -
  let ?spec = "\<lparr>spec_shape = [], spec_dtype = int32, minimum = 0, maximum = 0\<rparr>"
  have "\<exists>msg. init (Spec ?spec)
        (Seq [[[1]], [[1]]]) (Seq [[0], [0]]) (Seq [0, 0]) (Some [1]) 1 (Seq []) (Seq []) 1
      = Inl (ValueError msg)"
    using init_checks [where cov = "[[[1]], [[1]]]" and aspec = ?spec
        and dat_a = "Seq [[0], [0]]" and num_a = "Seq [0, 0]" and tss = "Some [1]" and al = 1
        and ev_a = "Seq []" and em_a = "Seq []" and tw = 1]
    by simp
  moreover have "\<exists>p. init (Spec ?spec)
        (Seq [[[1]]]) (Seq [[0]]) (Seq [0]) (Some [1]) 1 (Seq []) (Seq []) 1 = Inr p"
    using init_checks [where cov = "[[[1]]]" and aspec = ?spec and tss = "Some [1]"
        and al = 1 and tw = 1 and dat = "[[0]]" and num = "[0]" and ev = "[]" and em = "[]"]
    by simp
  ultimately show ?thesis by simp
qed

text \<open>
  C7 as stated fails: with one covariance matrix, no data vector and \<open>maximum = 0\<close> the
  number of covariance matrices equals \<open>maximum + 1\<close>, and construction fails all the
  same.
\<close>

theorem init_fails_with_matching_arm_count:
  "init (Spec \<lparr>spec_shape = [], spec_dtype = int32, minimum = 0, maximum = 0\<rparr>)
        (Seq [[[1]]]) (Seq []) (Seq [0]) (Some [1]) 1 (Seq []) (Seq []) 1
     = Inl (ValueError ''The size of list cov_matrix must match the size of list data_vector.'') \<and>
   int (length [[[1::real]]])
     = maximum \<lparr>spec_shape = [], spec_dtype = int32, minimum = 0, maximum = 0\<rparr> + 1"
  by (simp add: init_def)

section \<open>The dtype of an action\<close>

text \<open>
  C8. When some entry of a policy's action output has an element type other than the
  one its action specification declares, if only one entry of a list, calling
  \<^verbatim>\<open>action\<close> fails with a dtype mismatch; when every element type matches, the call
  returns the output as it is.
\<close>

theorem action_dtype_check:
  assumes "length (act ts) = length specs"
  shows "((\<exists>i < length specs. tensor_dtype (act ts ! i) \<noteq> spec_dtype (specs ! i)) \<longrightarrow>
            tf_policy_action specs act ts = Inl DtypeMismatch) \<and>
         ((\<forall>i < length specs. tensor_dtype (act ts ! i) = spec_dtype (specs ! i)) \<longrightarrow>
            tf_policy_action specs act ts = Inr (act ts))"
  using assms by (auto simp: tf_policy_action_def Let_def list_all2_conv_all_nth)

theorem action_dtype_check_witness:
  "tf_policy_action TFPolicyMismatchedDtypesListAction_spec TFPolicyMismatchedDtypesListAction_action
      (restart [[1, 2], [3, 4]]) = Inl DtypeMismatch \<and>
   tf_policy_action [\<lparr>spec_shape = [1], spec_dtype = int64, minimum = 0, maximum = 1\<rparr>,
                     \<lparr>spec_shape = [1], spec_dtype = int64, minimum = 0, maximum = 1\<rparr>]
      TFPolicyMismatchedDtypesListAction_action (restart [[1, 2], [3, 4]])
     = Inr [\<lparr>tensor_dtype = int64, tensor_value = [0]\<rparr>, \<lparr>tensor_dtype = int64, tensor_value = [0]\<rparr>]"
proof -
  have m: "\<exists>i < length TFPolicyMismatchedDtypesListAction_spec.
          tensor_dtype (TFPolicyMismatchedDtypesListAction_action (restart [[1, 2], [3, 4]]) ! i)
            \<noteq> spec_dtype (TFPolicyMismatchedDtypesListAction_spec ! i)"
    by (rule exI [of _ 1])
      (simp add: TFPolicyMismatchedDtypesListAction_spec_def TFPolicyMismatchedDtypesListAction_action_def)
  have "tf_policy_action TFPolicyMismatchedDtypesListAction_spec TFPolicyMismatchedDtypesListAction_action
      (restart [[1, 2], [3, 4]]) = Inl DtypeMismatch"
    using action_dtype_check [of TFPolicyMismatchedDtypesListAction_action "restart [[1, 2], [3, 4]]"
        TFPolicyMismatchedDtypesListAction_spec] m
    by (simp add: TFPolicyMismatchedDtypesListAction_spec_def TFPolicyMismatchedDtypesListAction_action_def)
  moreover have "tf_policy_action [\<lparr>spec_shape = [1], spec_dtype = int64, minimum = 0, maximum = 1\<rparr>,
                     \<lparr>spec_shape = [1], spec_dtype = int64, minimum = 0, maximum = 1\<rparr>]
      TFPolicyMismatchedDtypesListAction_action (restart [[1, 2], [3, 4]])
     = Inr (TFPolicyMismatchedDtypesListAction_action (restart [[1, 2], [3, 4]]))"
    using action_dtype_check [of TFPolicyMismatchedDtypesListAction_action "restart [[1, 2], [3, 4]]"
        "[\<lparr>spec_shape = [1], spec_dtype = int64, minimum = 0, maximum = 1\<rparr>,
          \<lparr>spec_shape = [1], spec_dtype = int64, minimum = 0, maximum = 1\<rparr>]"]
    by (simp add: TFPolicyMismatchedDtypesListAction_action_def less_Suc_eq numeral_2_eq_2)
  ultimately show ?thesis by (simp add: TFPolicyMismatchedDtypesListAction_action_def)
qed

text \<open>The two other cases of the test file: a single mismatched action, and the same
  policy once its specification declares the dtype it produces.\<close>

lemma single_action_dtype_tests:
  "tf_policy_action TFPolicyMismatchedDtypes_spec TFPolicyMismatchedDtypes_action
      (restart [[1, 2], [3, 4]])
     = Inl DtypeMismatch"
  "tf_policy_action [\<lparr>spec_shape = [1], spec_dtype = int64, minimum = 0, maximum = 1\<rparr>]
      TFPolicyMismatchedDtypes_action (restart [[1, 2], [3, 4]])
     = Inr [\<lparr>tensor_dtype = int64, tensor_value = [0]\<rparr>]"
  by (simp_all add: tf_policy_action_def TFPolicyMismatchedDtypes_spec_def
      TFPolicyMismatchedDtypes_action_def)

end
